theory Spec2Isabelle
  imports Complex_Main
begin

section \<open>Smart mirror: the gesture engine of \<open>src/environment/script.js\<close>\<close>

text \<open>
  The script keeps its session in module-level variables and reads geometry from the
  document. The embedding threads the variables through a record \<open>state\<close> and reads
  everything the document or the browser reports (bounding rectangles, the clock, the
  canvas payload) from a record \<open>env\<close>. JavaScript numbers are idealised as \<open>real\<close>
  (no rounding, no NaN); clock readings are integers (milliseconds). Calls that only
  write to the document (\<open>setStatus\<close>, \<open>setCursor\<close>, style transitions) are left
  out, apart from the countdown label and the button flash, which the properties below
  talk about.
\<close>

subsection \<open>Constants\<close>

definition BUTTON_COOLDOWN_MS :: int where "BUTTON_COOLDOWN_MS = 800"
definition SNAP_SIZE :: real where "SNAP_SIZE = 16"
definition ALIGN_THRESHOLD :: real where "ALIGN_THRESHOLD = 140"
definition BUTTON_HIT_EXPAND :: real where "BUTTON_HIT_EXPAND = 24"
definition SWIPE_THRESHOLD :: real where "SWIPE_THRESHOLD = 2 / 10"
definition SWIPE_TIME_MAX :: int where "SWIPE_TIME_MAX = 900"
definition SWIPE_COOLDOWN_MS :: int where "SWIPE_COOLDOWN_MS = 900"
definition GESTURE_COOLDOWN_MS :: int where "GESTURE_COOLDOWN_MS = 1200"

subsection \<open>Data\<close>

text \<open>A point \<open>{x, y}\<close>; a landmark is a point (its \<open>z\<close> is never read).\<close>

record point =
  xc :: real
  yc :: real

text \<open>
  One hand: the array of landmarks as delivered. Reading an index past the end of a
  JavaScript array gives \<open>undefined\<close>, here \<open>None\<close>.
\<close>

type_synonym hand = "point list"

definition lm :: "hand \<Rightarrow> nat \<Rightarrow> point option" where
  "lm landmarks i = (if i < length landmarks then Some (landmarks ! i) else None)"

text \<open>The only exception the engine can raise: reading a property of \<open>undefined\<close>.\<close>

datatype error = TypeError

text \<open>What \<open>getBoundingClientRect\<close> reports for an element.\<close>

record domrect =
  r_left :: real
  r_right :: real
  r_top :: real
  r_bottom :: real
  r_width :: real
  r_height :: real

text \<open>
  A control button: its \<open>data-action\<close>, whether its computed style lets it take part
  in hit-testing (not \<open>display: none\<close>, \<open>visibility: hidden\<close>, \<open>opacity: 0\<close> or
  \<open>pointer-events: none\<close>), and its rectangle.
\<close>

record button =
  action :: string
  shown :: bool
  b_rect :: domrect

datatype app_mode = Mirror | TryOn

datatype pinch_mode = PNone | PDrag | PButton | PIdle

text \<open>
  An entry of \<open>widgetState\<close>: the element (its position in \<open>widgetElements\<close>), the
  base centre and the offset.
\<close>

record wstate =
  el :: nat
  baseCenter :: point
  offset :: point

text \<open>
  What the surroundings report during one tracker callback: the clock, the mirror's
  rectangle, the window size, the widget elements (their ids, in document order) with
  their rectangles while the hands are processed and at the moment of release, the control
  buttons in document order, and the image the canvas would encode. The clock is taken to
  stand still during one callback: every \<open>Date.now()\<close> of a frame reads \<open>now\<close>.
\<close>

record env =
  now :: int
  mirrorRect :: domrect
  innerWidth :: real
  innerHeight :: real
  widgetElements :: "string list"
  widgetRect :: "nat \<Rightarrow> domrect"
  releaseRect :: "nat \<Rightarrow> domrect"
  controlButtons :: "button list"
  dataUrl :: string

text \<open>
  The module-level variables, followed by the pieces of the browser the engine drives:
  the live interval timers (handle to the \<open>counter\<close> captured by the callback), the
  next free handle, the countdown label, the buttons handed to \<open>flashButton\<close> and the
  payloads handed to the download link.
\<close>

record state =
  widgetState :: "string \<rightharpoonup> wstate"
  draggingId :: "string option"
  pinchActive :: bool
  pinchMode :: pinch_mode
  editMode :: bool
  lastButtonPress :: int
  mode :: app_mode
  lastSwipeX :: "real option"
  lastSwipeTime :: int
  swipeStartX :: "real option"
  swipeStartTime :: int
  lastGestureTime :: int
  isCountingDown :: bool
  countdownTimer :: "nat option"
  photoReady :: bool
  captureDataUrl :: "string option"
  intervals :: "nat \<rightharpoonup> int"
  nextHandle :: nat
  countdownText :: int
  countdownHidden :: bool
  flashed :: "button list"
  downloads :: "string list"

subsection \<open>Geometry\<close>

text \<open>\<open>distance(a, b)\<close>: \<open>Math.hypot\<close> of the differences; \<open>a.x\<close> on \<open>undefined\<close> raises.\<close>

definition distance :: "point option \<Rightarrow> point option \<Rightarrow> error + real" where
  "distance a b =
     (case a of None \<Rightarrow> Inl TypeError
      | Some p \<Rightarrow> (case b of None \<Rightarrow> Inl TypeError
          | Some q \<Rightarrow> Inr (sqrt ((xc p - xc q)\<^sup>2 + (yc p - yc q)\<^sup>2))))"

text \<open>The record \<open>getRect\<close> builds: the four edges and the two centres.\<close>

record rect =
  left :: real
  right :: real
  top_edge :: real
  bottom :: real
  centerX :: real
  centerY :: real

definition getRect :: "domrect \<Rightarrow> rect" where
  "getRect r = \<lparr> left = r_left r, right = r_right r, top_edge = r_top r, bottom = r_bottom r,
                 centerX = r_left r + r_width r / 2, centerY = r_top r + r_height r / 2 \<rparr>"

definition inside :: "point \<Rightarrow> domrect \<Rightarrow> bool" where
  "inside p r \<longleftrightarrow> xc p \<ge> r_left r \<and> xc p \<le> r_right r \<and> yc p \<ge> r_top r \<and> yc p \<le> r_bottom r"

subsection \<open>Hit-testing\<close>

text \<open>
  \<open>widgetUnderPoint\<close>: the loop overwrites \<open>targetId\<close> at every widget whose rectangle
  holds the point, so the last one stays. The widgets are numbered from \<open>k\<close>.
\<close>

fun widgetLoop :: "(nat \<Rightarrow> domrect) \<Rightarrow> point \<Rightarrow> nat \<Rightarrow> string list \<Rightarrow> string option \<Rightarrow> string option" where
  "widgetLoop rc p k [] targetId = targetId"
| "widgetLoop rc p k (i # ids) targetId =
     widgetLoop rc p (Suc k) ids (if inside p (rc k) then Some i else targetId)"

definition widgetUnderPoint :: "env \<Rightarrow> point \<Rightarrow> string option" where
  "widgetUnderPoint e p = widgetLoop (widgetRect e) p 0 (widgetElements e) None"

definition expanded :: "domrect \<Rightarrow> domrect" where
  "expanded r = r\<lparr> r_left := r_left r - BUTTON_HIT_EXPAND, r_right := r_right r + BUTTON_HIT_EXPAND,
                   r_top := r_top r - BUTTON_HIT_EXPAND, r_bottom := r_bottom r + BUTTON_HIT_EXPAND \<rparr>"

definition buttonHit :: "point \<Rightarrow> button \<Rightarrow> bool" where
  "buttonHit p btn \<longleftrightarrow> (if \<not> shown btn then False else inside p (expanded (b_rect btn)))"

text \<open>\<open>hitTestButtons\<close>: \<open>Array.prototype.find\<close>, the first button the predicate accepts.\<close>

definition hitTestButtons :: "env \<Rightarrow> point \<Rightarrow> button option" where
  "hitTestButtons e p = find (buttonHit p) (controlButtons e)"

text \<open>A JavaScript string is truthy unless it is empty; \<open>null\<close> is falsy.\<close>

definition truthy :: "string option \<Rightarrow> bool" where
  "truthy v = (case v of None \<Rightarrow> False | Some i \<Rightarrow> i \<noteq> [])"

subsection \<open>Widget layout\<close>

text \<open>
  \<open>initWidgetState\<close>: every widget element gets a fresh entry whose base centre is the
  centre of its rectangle minus the offset it already had (or zero).
\<close>

fun initLoop :: "(nat \<Rightarrow> domrect) \<Rightarrow> nat \<Rightarrow> string list \<Rightarrow> (string \<rightharpoonup> wstate) \<Rightarrow> (string \<rightharpoonup> wstate)" where
  "initLoop rc k [] ws = ws"
| "initLoop rc k (i # ids) ws =
     (let currentOffset = (case ws i of None \<Rightarrow> \<lparr> xc = 0, yc = 0 \<rparr> | Some w \<Rightarrow> offset w);
          r = rc k;
          bc = \<lparr> xc = r_left r + r_width r / 2 - xc currentOffset,
                 yc = r_top r + r_height r / 2 - yc currentOffset \<rparr>
      in initLoop rc (Suc k) ids (ws(i \<mapsto> \<lparr> el = k, baseCenter = bc, offset = currentOffset \<rparr>)))"

definition initWidgetState :: "env \<Rightarrow> state \<Rightarrow> state" where
  "initWidgetState e s = s\<lparr> widgetState := initLoop (widgetRect e) 0 (widgetElements e) (widgetState s) \<rparr>"

definition setWidgetPosition :: "string \<Rightarrow> real \<Rightarrow> real \<Rightarrow> state \<Rightarrow> state" where
  "setWidgetPosition i x y s =
     (case widgetState s i of None \<Rightarrow> s
      | Some w \<Rightarrow>
          if \<not> editMode s then s
          else s\<lparr> widgetState := (widgetState s)(i \<mapsto>
                 w\<lparr> offset := \<lparr> xc = x - xc (baseCenter w), yc = y - yc (baseCenter w) \<rparr> \<rparr>) \<rparr>)"

definition resetPanels :: "env \<Rightarrow> state \<Rightarrow> state" where
  "resetPanels e s =
     initWidgetState e
       (s\<lparr> widgetState := (\<lambda>i. map_option (\<lambda>w. w\<lparr> offset := \<lparr> xc = 0, yc = 0 \<rparr> \<rparr>) (widgetState s i)) \<rparr>)"

subsection \<open>Snapping\<close>

text \<open>
  An alignment candidate is a pair (distance, delta); the running best is a pair
  (best distance, chosen delta). \<open>tryCandidate\<close> is the body of the inner
  \<open>candidates.forEach\<close>.
\<close>

type_synonym cand = "real \<times> real"

definition tryCandidate :: "cand \<Rightarrow> cand \<Rightarrow> cand" where
  "tryCandidate acc c =
     (if fst c < fst acc \<and> fst c \<le> ALIGN_THRESHOLD then (fst c, snd c) else acc)"

definition candidatesX :: "rect \<Rightarrow> rect \<Rightarrow> cand list" where
  "candidatesX selfRect r =
     [ (\<bar>left selfRect - left r\<bar>, left r - left selfRect),
       (\<bar>centerX selfRect - centerX r\<bar>, centerX r - centerX selfRect),
       (\<bar>right selfRect - right r\<bar>, right r - right selfRect) ]"

definition candidatesY :: "rect \<Rightarrow> rect \<Rightarrow> cand list" where
  "candidatesY selfRect r =
     [ (\<bar>top_edge selfRect - top_edge r\<bar>, top_edge r - top_edge selfRect),
       (\<bar>centerY selfRect - centerY r\<bar>, centerY r - centerY selfRect),
       (\<bar>bottom selfRect - bottom r\<bar>, bottom r - bottom selfRect) ]"

text \<open>The body of \<open>others.forEach\<close>: first the three X candidates, then the three Y ones.\<close>

definition alignStep :: "rect \<Rightarrow> cand \<times> cand \<Rightarrow> rect \<Rightarrow> cand \<times> cand" where
  "alignStep selfRect acc r =
     (foldl tryCandidate (fst acc) (candidatesX selfRect r),
      foldl tryCandidate (snd acc) (candidatesY selfRect r))"

text \<open>The whole search, started from \<open>best = ALIGN_THRESHOLD + 1\<close> and \<open>delta = 0\<close>.\<close>

definition align :: "rect \<Rightarrow> rect list \<Rightarrow> cand \<times> cand" where
  "align selfRect others =
     foldl (alignStep selfRect) ((ALIGN_THRESHOLD + 1, 0), (ALIGN_THRESHOLD + 1, 0)) others"

text \<open>\<open>Math.round\<close> rounds to the nearest integer, halves upwards.\<close>

definition math_round :: "real \<Rightarrow> int" where
  "math_round v = \<lfloor>v + 1 / 2\<rfloor>"

definition snap :: "real \<Rightarrow> real" where
  "snap v = real_of_int (math_round (v / SNAP_SIZE)) * SNAP_SIZE"

text \<open>The rectangles of the widget elements whose id differs from \<open>i\<close>, in document order.\<close>

definition otherRects :: "env \<Rightarrow> string \<Rightarrow> rect list" where
  "otherRects e i =
     map (\<lambda>(k, j). getRect (releaseRect e k))
       (filter (\<lambda>(k, j). j \<noteq> i) (enumerate 0 (widgetElements e)))"

definition snapWidget :: "env \<Rightarrow> string \<Rightarrow> state \<Rightarrow> state" where
  "snapWidget e i s =
     (case widgetState s i of None \<Rightarrow> s
      | Some w \<Rightarrow>
          let selfRect = getRect (releaseRect e (el w));
              best = align selfRect (otherRects e i);
              deltaX = snd (fst best);
              deltaY = snd (snd best)
          in s\<lparr> widgetState := (widgetState s)(i \<mapsto>
                 w\<lparr> offset := \<lparr> xc = snap (xc (offset w) + deltaX),
                                yc = snap (yc (offset w) + deltaY) \<rparr> \<rparr>) \<rparr>)"

subsection \<open>Edit mode, capture flow, application mode\<close>

definition setEditMode :: "bool \<Rightarrow> state \<Rightarrow> state" where
  "setEditMode on s =
     (let s1 = s\<lparr> editMode := on \<rparr>
      in if \<not> editMode s1 then s1\<lparr> draggingId := None \<rparr> else s1)"

definition hidePhotoPreview :: "state \<Rightarrow> state" where
  "hidePhotoPreview s = s\<lparr> photoReady := False, captureDataUrl := None, countdownHidden := True \<rparr>"

text \<open>\<open>clearInterval\<close> of a handle; of \<open>null\<close> it does nothing.\<close>

definition clearInterval :: "nat option \<Rightarrow> state \<Rightarrow> state" where
  "clearInterval t s =
     (case t of None \<Rightarrow> s | Some h \<Rightarrow> s\<lparr> intervals := (intervals s)(h := None) \<rparr>)"

text \<open>A timer handle is a positive number, \<open>if (countdownTimer)\<close> asks for one.\<close>

definition timerSet :: "nat option \<Rightarrow> bool" where
  "timerSet t = (case t of None \<Rightarrow> False | Some h \<Rightarrow> h \<noteq> 0)"

text \<open>
  \<open>triggerShutter\<close>: the guard, then the label shows 3 and \<open>setInterval\<close> registers the
  callback with its own \<open>counter = 3\<close> under a fresh positive handle.
\<close>

definition triggerShutter :: "state \<Rightarrow> state" where
  "triggerShutter s =
     (if mode s \<noteq> TryOn \<or> isCountingDown s then s
      else
        let s1 = hidePhotoPreview s;
            s2 = s1\<lparr> countdownHidden := False, countdownText := 3, isCountingDown := True \<rparr>;
            h = Suc (nextHandle s2)
        in s2\<lparr> intervals := (intervals s2)(h \<mapsto> 3), nextHandle := h, countdownTimer := Some h \<rparr>)"

definition capturePhoto :: "env \<Rightarrow> state \<Rightarrow> state" where
  "capturePhoto e s = s\<lparr> captureDataUrl := Some (dataUrl e), photoReady := True \<rparr>"

text \<open>
  One firing of the interval callback registered under handle \<open>h\<close> (a cleared timer never
  fires). The callback clears whatever handle \<open>countdownTimer\<close> holds at that moment.
\<close>

definition tick :: "env \<Rightarrow> nat \<Rightarrow> state \<Rightarrow> state" where
  "tick e h s =
     (case intervals s h of None \<Rightarrow> s
      | Some c \<Rightarrow>
          let counter = c - 1;
              s1 = s\<lparr> intervals := (intervals s)(h \<mapsto> counter) \<rparr>
          in if counter \<le> 0
             then capturePhoto e
                    ((clearInterval (countdownTimer s1) s1)\<lparr> countdownHidden := True, isCountingDown := False \<rparr>)
             else s1\<lparr> countdownText := counter \<rparr>)"

definition savePhoto :: "state \<Rightarrow> state" where
  "savePhoto s =
     (if \<not> photoReady s \<or> \<not> truthy (captureDataUrl s) then s
      else s\<lparr> downloads := downloads s @ [the (captureDataUrl s)] \<rparr>)"

definition retakePhoto :: "state \<Rightarrow> state" where
  "retakePhoto s = triggerShutter (hidePhotoPreview s)"

definition setMode :: "app_mode \<Rightarrow> state \<Rightarrow> state" where
  "setMode next s =
     (if mode s = next then s
      else
        let s1 = s\<lparr> mode := next \<rparr>
        in if mode s1 = TryOn then
             let s2 = hidePhotoPreview (setEditMode False s1);
                 s3 = (if timerSet (countdownTimer s2)
                       then (clearInterval (countdownTimer s2) s2)
                              \<lparr> countdownTimer := None, countdownHidden := True, isCountingDown := False \<rparr>
                       else s2)
             in s3\<lparr> lastSwipeX := None, swipeStartX := None, swipeStartTime := 0 \<rparr>
           else
             let s2 = (if timerSet (countdownTimer s1)
                       then (clearInterval (countdownTimer s1) s1)\<lparr> countdownTimer := None \<rparr>
                       else s1);
                 s3 = hidePhotoPreview (s2\<lparr> countdownHidden := True, isCountingDown := False \<rparr>)
             in s3\<lparr> lastSwipeX := None, swipeStartX := None, swipeStartTime := 0 \<rparr>)"

text \<open>\<open>runAction\<close>: three independent tests on the action string; any other string does nothing.\<close>

definition runAction :: "env \<Rightarrow> string \<Rightarrow> state \<Rightarrow> state" where
  "runAction e a s =
     (let s1 = (if a = ''reset'' then resetPanels e s else s);
          s2 = (if a = ''toggle-edit'' then setEditMode (\<not> editMode s1) s1 else s1)
      in if a = ''shutter'' then triggerShutter s2 else s2)"

definition flashButton :: "button \<Rightarrow> state \<Rightarrow> state" where
  "flashButton btn s = s\<lparr> flashed := flashed s @ [btn] \<rparr>"

subsection \<open>Pinch classification\<close>

definition pinchThreshold :: "real \<Rightarrow> real" where
  "pinchThreshold handSpan = max (handSpan * (7 / 10)) (5 / 100)"

text \<open>
  The start of a pinch lifecycle (the block under \<open>if (!pinchActive)\<close>). The result says
  whether the block ended in \<open>return true\<close> (a button fired).
\<close>

definition pinchStart :: "env \<Rightarrow> point \<Rightarrow> point \<Rightarrow> state \<Rightarrow> bool \<times> state" where
  "pinchStart e pinchPointUI pinchPointMirror s =
     (let s1 = s\<lparr> pinchActive := True, pinchMode := PIdle \<rparr>;
          btn = hitTestButtons e pinchPointUI
      in if btn \<noteq> None \<and> now e - lastButtonPress s1 > BUTTON_COOLDOWN_MS
         then (True, (flashButton (the btn) (runAction e (action (the btn)) s1))
                        \<lparr> lastButtonPress := now e, pinchMode := PButton \<rparr>)
         else (False,
               if editMode s1 \<and> mode s1 = Mirror
               then (let target = widgetUnderPoint e pinchPointMirror
                     in if truthy target then s1\<lparr> draggingId := target, pinchMode := PDrag \<rparr>
                        else s1\<lparr> pinchMode := PIdle \<rparr>)
               else s1))"

text \<open>
  \<open>processPinch\<close> for one hand. Both calls of \<open>distance\<close> come before any assignment, so
  an exception leaves the state as it was.
\<close>

definition processPinch :: "env \<Rightarrow> hand \<Rightarrow> state \<Rightarrow> (error + bool) \<times> state" where
  "processPinch e landmarks s =
     (case distance (lm landmarks 4) (lm landmarks 8) of
        Inl err \<Rightarrow> (Inl err, s)
      | Inr pinchStrength \<Rightarrow>
     (case distance (lm landmarks 0) (lm landmarks 9) of
        Inl err \<Rightarrow> (Inl err, s)
      | Inr handSpan \<Rightarrow>
          let threshold = pinchThreshold handSpan;
              index = the (lm landmarks 8);
              mirroredX = (if mode s = TryOn then xc index else 1 - xc index);
              pinchPointMirror = \<lparr> xc = r_left (mirrorRect e) + mirroredX * r_width (mirrorRect e),
                                   yc = r_top (mirrorRect e) + yc index * r_height (mirrorRect e) \<rparr>;
              pinchPointUI = \<lparr> xc = mirroredX * innerWidth e, yc = yc index * innerHeight e \<rparr>;
              isPinching = (pinchStrength < threshold)
          in if \<not> isPinching then (Inr False, s)
             else
               let (fired, s1) = (if \<not> pinchActive s then pinchStart e pinchPointUI pinchPointMirror s
                                  else (False, s))
               in if fired then (Inr True, s1)
                  else (Inr True,
                        if pinchMode s1 = PDrag \<and> truthy (draggingId s1) \<and> editMode s1 \<and> mode s1 = Mirror
                        then setWidgetPosition (the (draggingId s1)) (xc pinchPointMirror) (yc pinchPointMirror) s1
                        else s1)))"

text \<open>
  The loop \<open>hands.forEach\<close> of \<open>onResults\<close> with its flag \<open>anyPinch\<close>; an exception ends
  the loop and keeps what the earlier hands did.
\<close>

fun pinchLoop :: "env \<Rightarrow> hand list \<Rightarrow> bool \<Rightarrow> state \<Rightarrow> (error + bool) \<times> state" where
  "pinchLoop e [] anyPinch s = (Inr anyPinch, s)"
| "pinchLoop e (landmarks # hands) anyPinch s =
     (case processPinch e landmarks s of
        (Inl err, s1) \<Rightarrow> (Inl err, s1)
      | (Inr b, s1) \<Rightarrow> pinchLoop e hands (if b then True else anyPinch) s1)"

subsection \<open>Swipes\<close>

text \<open>In arithmetic \<open>null\<close> counts as 0.\<close>

definition num :: "real option \<Rightarrow> real" where
  "num v = (case v of None \<Rightarrow> 0 | Some r \<Rightarrow> r)"

text \<open>The body of \<open>hands.forEach\<close> in \<open>detectSwipes\<close>.\<close>

definition swipeHand :: "env \<Rightarrow> hand \<Rightarrow> state \<Rightarrow> (error + unit) \<times> state" where
  "swipeHand e landmarks s =
     (case lm landmarks 8 of
        None \<Rightarrow> (Inl TypeError, s)
      | Some tip \<Rightarrow>
          let mirroredX = 1 - xc tip
          in (case swipeStartX s of
               None \<Rightarrow> (Inr (), s\<lparr> swipeStartX := Some mirroredX, swipeStartTime := now e,
                                   lastSwipeX := Some mirroredX \<rparr>)
             | Some startX \<Rightarrow>
                 let dx = mirroredX - startX;
                     dt = now e - swipeStartTime s;
                     sinceLast = now e - lastSwipeTime s;
                     moving = (\<bar>mirroredX - num (lastSwipeX s)\<bar> > 2 / 100);
                     s1 = (if \<not> pinchActive s \<and> sinceLast > SWIPE_COOLDOWN_MS \<and> dt \<le> SWIPE_TIME_MAX
                           then (if dx > SWIPE_THRESHOLD \<and> mode s = Mirror
                                 then (setMode TryOn s)\<lparr> lastSwipeTime := now e, swipeStartX := None,
                                                          swipeStartTime := 0 \<rparr>
                                 else if dx < - SWIPE_THRESHOLD \<and> mode s = TryOn
                                 then (setMode Mirror s)\<lparr> lastSwipeTime := now e, swipeStartX := None,
                                                           swipeStartTime := 0 \<rparr>
                                 else s)
                           else s);
                     s2 = (if dt > SWIPE_TIME_MAX \<or> (\<not> moving \<and> dt > 280)
                           then s1\<lparr> swipeStartX := Some mirroredX, swipeStartTime := now e \<rparr>
                           else s1)
                 in (Inr (), s2\<lparr> lastSwipeX := Some mirroredX \<rparr>)))"

fun detectSwipes :: "env \<Rightarrow> hand list \<Rightarrow> state \<Rightarrow> (error + unit) \<times> state" where
  "detectSwipes e [] s = (Inr (), s)"
| "detectSwipes e (landmarks # hands) s =
     (case swipeHand e landmarks s of
        (Inl err, s1) \<Rightarrow> (Inl err, s1)
      | (Inr u, s1) \<Rightarrow> detectSwipes e hands s1)"

subsection \<open>Thumb gestures\<close>

text \<open>A comparison of the \<open>y\<close> of two landmarks; either may be \<open>undefined\<close>.\<close>

definition cmpY :: "(real \<Rightarrow> real \<Rightarrow> bool) \<Rightarrow> point option \<Rightarrow> point option \<Rightarrow> error + bool" where
  "cmpY f a b =
     (case a of None \<Rightarrow> Inl TypeError
      | Some p \<Rightarrow> (case b of None \<Rightarrow> Inl TypeError | Some q \<Rightarrow> Inr (f (yc p) (yc q))))"

text \<open>\<open>&&\<close>: the right operand is evaluated only when the left one is true.\<close>

definition andAlso :: "error + bool \<Rightarrow> error + bool \<Rightarrow> error + bool" where
  "andAlso a b = (case a of Inl err \<Rightarrow> Inl err | Inr v \<Rightarrow> if v then b else Inr False)"

definition folded :: "point option \<Rightarrow> point option \<Rightarrow> error + bool" where
  "folded tip pip = cmpY (\<lambda>t p. t > p + 2 / 100) tip pip"

definition fingersFolded :: "hand \<Rightarrow> error + bool" where
  "fingersFolded landmarks =
     andAlso (folded (lm landmarks 8) (lm landmarks 6))
       (andAlso (folded (lm landmarks 12) (lm landmarks 10))
         (andAlso (folded (lm landmarks 16) (lm landmarks 14))
           (folded (lm landmarks 20) (lm landmarks 18))))"

definition thumbUp :: "hand \<Rightarrow> error + bool" where
  "thumbUp landmarks =
     andAlso (cmpY (\<lambda>t m. t < m - 4 / 100) (lm landmarks 4) (lm landmarks 2))
             (cmpY (\<lambda>t w. t < w - 2 / 100) (lm landmarks 4) (lm landmarks 0))"

definition thumbDown :: "hand \<Rightarrow> error + bool" where
  "thumbDown landmarks =
     andAlso (cmpY (\<lambda>t m. t > m + 4 / 100) (lm landmarks 4) (lm landmarks 2))
             (cmpY (\<lambda>t w. t > w + 2 / 100) (lm landmarks 4) (lm landmarks 0))"

text \<open>The loop \<open>for (const landmarks of hands)\<close>: the first hand that shows a gesture ends it.\<close>

fun thumbLoop :: "env \<Rightarrow> hand list \<Rightarrow> state \<Rightarrow> (error + unit) \<times> state" where
  "thumbLoop e [] s = (Inr (), s)"
| "thumbLoop e (landmarks # hands) s =
     (case fingersFolded landmarks of
        Inl err \<Rightarrow> (Inl err, s)
      | Inr ff \<Rightarrow>
          if \<not> ff then thumbLoop e hands s
          else (case thumbUp landmarks of
                  Inl err \<Rightarrow> (Inl err, s)
                | Inr up \<Rightarrow>
                    if up then (Inr (), savePhoto (s\<lparr> lastGestureTime := now e \<rparr>))
                    else (case thumbDown landmarks of
                            Inl err \<Rightarrow> (Inl err, s)
                          | Inr down \<Rightarrow>
                              if down then (Inr (), retakePhoto (s\<lparr> lastGestureTime := now e \<rparr>))
                              else thumbLoop e hands s)))"

definition detectThumbGestures :: "env \<Rightarrow> hand list \<Rightarrow> state \<Rightarrow> (error + unit) \<times> state" where
  "detectThumbGestures e hands s =
     (if now e - lastGestureTime s < GESTURE_COOLDOWN_MS then (Inr (), s)
      else thumbLoop e hands s)"

subsection \<open>The frame dispatcher\<close>

text \<open>The release block of \<open>onResults\<close>, run when no hand pinched and a session was active.\<close>

definition release :: "env \<Rightarrow> state \<Rightarrow> state" where
  "release e s =
     (let s1 = (if truthy (draggingId s) \<and> editMode s then snapWidget e (the (draggingId s)) s else s)
      in s1\<lparr> pinchActive := False, draggingId := None, pinchMode := PNone \<rparr>)"

text \<open>
  \<open>onResults\<close> for one frame; \<open>hands\<close> is \<open>results.multiHandLandmarks || []\<close>. The result
  is \<open>Inl\<close> when the callback ended by an exception, with the state as the exception left it.
\<close>

definition onResults :: "env \<Rightarrow> hand list \<Rightarrow> state \<Rightarrow> (error + unit) \<times> state" where
  "onResults e hands s =
     (if hands = []
      then (Inr (), s\<lparr> pinchActive := False, pinchMode := PNone, draggingId := None,
                       lastSwipeX := None, swipeStartX := None, swipeStartTime := 0 \<rparr>)
      else
        case pinchLoop e hands False s of
          (Inl err, s1) \<Rightarrow> (Inl err, s1)
        | (Inr anyPinch, s1) \<Rightarrow>
            let s2 = (if \<not> anyPinch \<and> pinchActive s1 then release e s1 else s1)
            in (case detectSwipes e hands s2 of
                 (Inl err, s3) \<Rightarrow> (Inl err, s3)
               | (Inr u, s3) \<Rightarrow>
                   if mode s3 = TryOn \<and> photoReady s3 \<and> \<not> isCountingDown s3
                   then detectThumbGestures e hands s3
                   else (Inr (), s3)))"

subsection \<open>Sample values\<close>

definition box :: "real \<Rightarrow> real \<Rightarrow> real \<Rightarrow> real \<Rightarrow> domrect" where
  "box l t w h = \<lparr> r_left = l, r_right = l + w, r_top = t, r_bottom = t + h, r_width = w, r_height = h \<rparr>"

definition demoButtons :: "button list" where
  "demoButtons = [ \<lparr> action = ''reset'', shown = True, b_rect = box 0 0 100 40 \<rparr>,
                   \<lparr> action = ''toggle-edit'', shown = True, b_rect = box 50 0 100 40 \<rparr> ]"

definition demoEnv :: env where
  "demoEnv = \<lparr> now = 1000, mirrorRect = box 0 0 1000 1000, innerWidth = 1000, innerHeight = 1000,
               widgetElements = [''clock'', ''weather''],
               widgetRect = (\<lambda>k. if k = 0 then box 100 100 200 200 else box 200 200 200 200),
               releaseRect = (\<lambda>k. if k = 0 then box 100 100 200 200 else box 200 200 200 200),
               controlButtons = demoButtons, dataUrl = ''data:image/png;base64,AA'' \<rparr>"

definition pt :: "real \<Rightarrow> real \<Rightarrow> point" where
  "pt a b = \<lparr> xc = a, yc = b \<rparr>"

text \<open>
  A hand of 21 landmarks: wrist at the origin, index base a tenth away, thumb tip in the
  middle of the frame and index tip \<open>d\<close> to its right.
\<close>

definition pinchHand :: "real \<Rightarrow> hand" where
  "pinchHand d =
     (replicate 21 (pt (1/2) (1/2)))[0 := pt 0 0, 9 := pt (1/10) 0, 4 := pt (1/2) (1/2), 8 := pt (1/2 + d) (1/2)]"

text \<open>The variables as the script initialises them.\<close>

definition state0 :: state where
  "state0 = \<lparr> widgetState = Map.empty, draggingId = None, pinchActive = False, pinchMode = PNone,
      editMode = False, lastButtonPress = 0, mode = Mirror, lastSwipeX = None, lastSwipeTime = 0,
      swipeStartX = None, swipeStartTime = 0, lastGestureTime = 0, isCountingDown = False,
      countdownTimer = None, photoReady = False, captureDataUrl = None, intervals = Map.empty,
      nextHandle = 0, countdownText = 0, countdownHidden = True, flashed = [], downloads = [] \<rparr>"

text \<open>A session dragging the widget \<open>clock\<close>, which sits at its base position.\<close>

definition clockW :: wstate where
  "clockW = \<lparr> el = 0, baseCenter = pt 200 200, offset = pt 0 0 \<rparr>"

definition dragState :: state where
  "dragState = state0\<lparr> widgetState := [''clock'' \<mapsto> clockW], editMode := True, pinchActive := True,
                        pinchMode := PDrag, draggingId := Some ''clock'' \<rparr>"

text \<open>A state in Try-On mode, otherwise as initialised.\<close>

definition tryOnState :: state where
  "tryOnState = state0\<lparr> mode := TryOn \<rparr>"

text \<open>A pinching hand, and the same hand cut to its first 8 or 10 landmarks.\<close>

definition closedHand :: hand where
  "closedHand = pinchHand 0.06"

definition shortHand :: hand where
  "shortHand = take 8 closedHand"

definition tenHand :: hand where
  "tenHand = take 10 closedHand"

text \<open>
  A hand with the four fingertips below their middle joints and the thumb tip well below
  thumb base and wrist; a Try-On state with a photo ready.
\<close>

definition thumbDownHand :: hand where
  "thumbDownHand =
     (replicate 21 (pt (1/2) (1/2)))[8 := pt (1/2) (6/10), 12 := pt (1/2) (6/10), 16 := pt (1/2) (6/10),
        20 := pt (1/2) (6/10), 4 := pt (1/2) (7/10)]"

definition photoState :: state where
  "photoState = tryOnState\<lparr> photoReady := True, captureDataUrl := Some ''data:image/png;base64,AA'' \<rparr>"

subsection \<open>Events and observations\<close>

text \<open>
  The state \<open>onResults\<close> has reached, on a frame with hands, when the pinch loop and the
  release block are through (or the loop has raised): what the later stages start from.
\<close>

definition afterPinch :: "env \<Rightarrow> hand list \<Rightarrow> state \<Rightarrow> state" where
  "afterPinch e hs s =
     (case pinchLoop e hs False s of
        (Inl err, s1) \<Rightarrow> s1
      | (Inr anyPinch, s1) \<Rightarrow> if \<not> anyPinch \<and> pinchActive s1 then release e s1 else s1)"

text \<open>The click listener of a control button: \<open>runAction\<close>, then \<open>flashButton\<close>.\<close>

definition clickButton :: "env \<Rightarrow> button \<Rightarrow> state \<Rightarrow> state" where
  "clickButton e btn s = flashButton btn (runAction e (action btn) s)"

text \<open>
  What can happen to the engine: a frame from the tracker, a click on a control button, a
  firing of the interval callback registered under a handle.
\<close>

datatype event = Frame env "hand list" | Click env button | Tick env nat

fun step :: "event \<Rightarrow> state \<Rightarrow> state" where
  "step (Frame e hs) s = snd (onResults e hs s)"
| "step (Click e btn) s = clickButton e btn s"
| "step (Tick e h) s = tick e h s"

fun run :: "event list \<Rightarrow> state \<Rightarrow> state" where
  "run [] s = s"
| "run (ev # evs) s = run evs (step ev s)"

text \<open>
  A frame fires a button when it hands one to \<open>flashButton\<close>, which \<open>processPinch\<close> does
  right after \<open>runAction\<close>; \<open>fireTimes\<close> lists the clock readings of the frames that fire.
\<close>

definition fires :: "env \<Rightarrow> hand list \<Rightarrow> state \<Rightarrow> bool" where
  "fires e hs s \<longleftrightarrow> flashed (snd (onResults e hs s)) \<noteq> flashed s"

fun fireTimes :: "event list \<Rightarrow> state \<Rightarrow> int list" where
  "fireTimes [] s = []"
| "fireTimes (ev # evs) s =
     (case ev of Frame e hs \<Rightarrow> (if fires e hs s then [now e] else []) | Click e btn \<Rightarrow> [] | Tick e h \<Rightarrow> [])
     @ fireTimes evs (step ev s)"

text \<open>Each time in the list is more than the cooldown after the one before it, from \<open>l\<close> on.\<close>

fun spaced :: "int \<Rightarrow> int list \<Rightarrow> bool" where
  "spaced l [] = True"
| "spaced l (t # ts) = (t - l > BUTTON_COOLDOWN_MS \<and> spaced t ts)"

text \<open>A pinching hand whose index tip points at the first control button of \<open>demoEnv\<close>.\<close>

definition buttonHand :: hand where
  "buttonHand = (replicate 21 (pt (95/100) (3/100)))[0 := pt 0 0, 9 := pt (1/10) 0]"

text \<open>A state whose swipe started at 0.3, 400 ms before the clock of \<open>demoEnv\<close>.\<close>

definition swipeState :: state where
  "swipeState = state0\<lparr> swipeStartX := Some (3/10), swipeStartTime := 600, lastSwipeX := Some (1/2) \<rparr>"

text \<open>
  A hand that does not pinch (thumb and index tips 0.08 apart), and a drag of \<open>clock\<close>
  that has carried it 5 pixels right and 3 down.
\<close>

definition openHand :: hand where
  "openHand = pinchHand 0.08"

definition offState :: state where
  "offState = dragState\<lparr> widgetState := [''clock'' \<mapsto> clockW\<lparr> offset := pt 5 3 \<rparr>] \<rparr>"

text \<open>A hand that points with its index tip at \<open>x\<close> and does not pinch.\<close>

definition pointingHand :: "real \<Rightarrow> hand" where
  "pointingHand x = (replicate 21 (pt x (1/2)))[4 := pt x (9/10)]"

text \<open>Pointing hands whose mirrored index tips are at 0.55, 0.3 and 0.7.\<close>

definition swipingHand :: hand where
  "swipingHand = pointingHand (45/100)"

definition leftHand :: hand where
  "leftHand = pointingHand (7/10)"

definition rightHand :: hand where
  "rightHand = pointingHand (3/10)"

text \<open>The drag of \<open>clock\<close> with a swipe start recorded at 0.3, 400 ms before the clock of \<open>demoEnv\<close>.\<close>

definition dragSwipeState :: state where
  "dragSwipeState = dragState\<lparr> swipeStartX := Some (3/10), swipeStartTime := 600, lastSwipeX := Some (1/2) \<rparr>"

text \<open>
  The surroundings five seconds after the start, and a Try-On state with a photo ready
  and a swipe start recorded at 0.8, 400 ms before that clock.
\<close>

definition laterEnv :: env where
  "laterEnv = demoEnv\<lparr> now := 5000 \<rparr>"

definition photoSwipeState :: state where
  "photoSwipeState = photoState\<lparr> swipeStartX := Some (8/10), swipeStartTime := 4600, lastSwipeX := Some (1/2) \<rparr>"

section \<open>Properties\<close>

subsection \<open>Hit-testing\<close>

lemma widgetLoop_snoc:
  "widgetLoop rc p k (ids @ [a]) t =
     (if inside p (rc (k + length ids)) then Some a else widgetLoop rc p k ids t)"
  by (induction ids arbitrary: k t) simp_all

lemma widgetLoop_Some:
  "widgetLoop rc p k ids t = Some i \<longleftrightarrow>
     (\<exists>n<length ids. ids ! n = i \<and> inside p (rc (k + n)) \<and>
        (\<forall>m. n < m \<and> m < length ids \<longrightarrow> \<not> inside p (rc (k + m))))
     \<or> (t = Some i \<and> (\<forall>m<length ids. \<not> inside p (rc (k + m))))"
proof (induction ids rule: rev_induct)
  case Nil
  then show ?case by simp
next
  case (snoc a ids)
  show ?case
  proof (cases "inside p (rc (k + length ids))")
    case True
    have "(\<exists>n<Suc (length ids). (ids @ [a]) ! n = i \<and> inside p (rc (k + n)) \<and>
        (\<forall>m. n < m \<and> m < Suc (length ids) \<longrightarrow> \<not> inside p (rc (k + m)))) \<longleftrightarrow> a = i"
    proof
      assume "\<exists>n<Suc (length ids). (ids @ [a]) ! n = i \<and> inside p (rc (k + n)) \<and>
        (\<forall>m. n < m \<and> m < Suc (length ids) \<longrightarrow> \<not> inside p (rc (k + m)))"
      then obtain n where n: "n < Suc (length ids)" "(ids @ [a]) ! n = i"
        "\<forall>m. n < m \<and> m < Suc (length ids) \<longrightarrow> \<not> inside p (rc (k + m))" by blast
      have "\<not> n < length ids" using n(3) True by auto
      with n(1) have "n = length ids" by simp
      with n(2) show "a = i" by simp
    next
      assume "a = i"
      then show "\<exists>n<Suc (length ids). (ids @ [a]) ! n = i \<and> inside p (rc (k + n)) \<and>
        (\<forall>m. n < m \<and> m < Suc (length ids) \<longrightarrow> \<not> inside p (rc (k + m)))"
        using True by (intro exI[of _ "length ids"]) auto
    qed
    moreover have "\<not> (\<forall>m<Suc (length ids). \<not> inside p (rc (k + m)))"
      using True by auto
    ultimately show ?thesis using True by (simp add: widgetLoop_snoc) blast
  next
    case False
    have "(\<exists>n<Suc (length ids). (ids @ [a]) ! n = i \<and> inside p (rc (k + n)) \<and>
        (\<forall>m. n < m \<and> m < Suc (length ids) \<longrightarrow> \<not> inside p (rc (k + m)))) \<longleftrightarrow>
       (\<exists>n<length ids. ids ! n = i \<and> inside p (rc (k + n)) \<and>
        (\<forall>m. n < m \<and> m < length ids \<longrightarrow> \<not> inside p (rc (k + m))))"
      using False by (auto simp: less_Suc_eq nth_append)
    moreover have "(\<forall>m<Suc (length ids). \<not> inside p (rc (k + m))) \<longleftrightarrow>
       (\<forall>m<length ids. \<not> inside p (rc (k + m)))"
      using False by (auto simp: less_Suc_eq)
    ultimately show ?thesis using False snoc.IH by (simp add: widgetLoop_snoc)
  qed
qed

lemma find_first_index:
  "find P xs = Some x \<longleftrightarrow> (\<exists>k<length xs. xs ! k = x \<and> P x \<and> (\<forall>j<k. \<not> P (xs ! j)))"
  by (auto simp: find_Some_iff)



subsection \<open>Pinch classification\<close>

lemma processPinch_result:
  "lm h 4 = Some thumb \<Longrightarrow> lm h 8 = Some index \<Longrightarrow> lm h 0 = Some palm \<Longrightarrow> lm h 9 = Some base \<Longrightarrow>
   fst (processPinch e h s) =
     Inr (sqrt ((xc thumb - xc index)\<^sup>2 + (yc thumb - yc index)\<^sup>2)
          < pinchThreshold (sqrt ((xc palm - xc base)\<^sup>2 + (yc palm - yc base)\<^sup>2)))"
  by (simp add: processPinch_def distance_def Let_def split_beta)

lemma lm_pinchHand:
  "lm (pinchHand d) 4 = Some (pt (1/2) (1/2))" "lm (pinchHand d) 8 = Some (pt (1/2 + d) (1/2))"
  "lm (pinchHand d) 0 = Some (pt 0 0)" "lm (pinchHand d) 9 = Some (pt (1/10) 0)"
  by (simp_all add: lm_def pinchHand_def)

text \<open>
  C1. For a hand that has landmarks 0, 4, 8 and 9, with pinch strength the distance from
  thumb tip (4) to index tip (8) and hand scale the distance from wrist (0) to index base
  (9): the threshold is \<open>max (0.7 * handScale) 0.05\<close>, and \<open>processPinch\<close> reports a
  pinch exactly when the strength is strictly below it, so a strength equal to the
  threshold is not a pinch. At scale 0.1 the threshold is 0.07, strength 0.06 is a pinch
  and strength 0.08 is not.
\<close>

theorem pinch_classification:
  assumes "lm h 4 = Some thumb" and "lm h 8 = Some index" and "lm h 0 = Some palm"
    and "lm h 9 = Some base"
    and "pinchStrength = sqrt ((xc thumb - xc index)\<^sup>2 + (yc thumb - yc index)\<^sup>2)"
    and "handScale = sqrt ((xc palm - xc base)\<^sup>2 + (yc palm - yc base)\<^sup>2)"
  shows "pinchThreshold handScale = max (0.7 * handScale) 0.05
    \<and> fst (processPinch e h s) = Inr (pinchStrength < max (0.7 * handScale) 0.05)
    \<and> (pinchStrength = max (0.7 * handScale) 0.05 \<longrightarrow> fst (processPinch e h s) = Inr False)
    \<and> (handScale = 0.1 \<and> pinchStrength = 0.06 \<longrightarrow>
           pinchThreshold handScale = 0.07 \<and> fst (processPinch e h s) = Inr True)
    \<and> (handScale = 0.1 \<and> pinchStrength = 0.08 \<longrightarrow> fst (processPinch e h s) = Inr False)"
proof -
  have t: "pinchThreshold handScale = max (0.7 * handScale) 0.05"
    by (simp add: pinchThreshold_def mult.commute)
  have r: "fst (processPinch e h s) = Inr (pinchStrength < max (0.7 * handScale) 0.05)"
    using processPinch_result [OF assms(1-4), of e s] assms(5,6) t by simp
  show ?thesis using r t by simp
qed

text \<open>The scenario of the specification: scale 0.1, strength 0.06, a pinch.\<close>

theorem pinch_classification_witness:
  "lm (pinchHand 0.06) 4 = Some (pt (1/2) (1/2)) \<and> lm (pinchHand 0.06) 8 = Some (pt (1/2 + 0.06) (1/2))
   \<and> lm (pinchHand 0.06) 0 = Some (pt 0 0) \<and> lm (pinchHand 0.06) 9 = Some (pt (1/10) 0)
   \<and> sqrt ((xc (pt (1/2) (1/2)) - xc (pt (1/2 + 0.06) (1/2)))\<^sup>2
          + (yc (pt (1/2) (1/2)) - yc (pt (1/2 + 0.06) (1/2)))\<^sup>2) = 0.06
   \<and> sqrt ((xc (pt 0 0) - xc (pt (1/10) 0))\<^sup>2 + (yc (pt 0 0) - yc (pt (1/10) 0))\<^sup>2) = 0.1
   \<and> pinchThreshold 0.1 = 0.07
   \<and> fst (processPinch demoEnv (pinchHand 0.06) state0) = Inr True"
proof -
  have a: "(0.06::real) = sqrt ((xc (pt (1/2) (1/2)) - xc (pt (1/2 + 0.06) (1/2)))\<^sup>2
          + (yc (pt (1/2) (1/2)) - yc (pt (1/2 + 0.06) (1/2)))\<^sup>2)"
    by (simp add: pt_def)
  have b: "(0.1::real) = sqrt ((xc (pt 0 0) - xc (pt (1/10) 0))\<^sup>2 + (yc (pt 0 0) - yc (pt (1/10) 0))\<^sup>2)"
    by (simp add: pt_def)
  show ?thesis
    using pinch_classification [OF lm_pinchHand(1) lm_pinchHand(2) lm_pinchHand(3) lm_pinchHand(4) a b,
        of demoEnv state0] lm_pinchHand [of "0.06"] a b
    by simp
qed

subsection \<open>Snapping\<close>

lemma tryCandidate_fold:
  "foldl tryCandidate (ALIGN_THRESHOLD + 1, 0) cs = (b, d) \<Longrightarrow>
     (if \<exists>c\<in>set cs. fst c \<le> ALIGN_THRESHOLD
      then (b, d) \<in> set cs \<and> b \<le> ALIGN_THRESHOLD \<and> (\<forall>c\<in>set cs. b \<le> fst c)
      else (b, d) = (ALIGN_THRESHOLD + 1, 0))"
proof (induction cs arbitrary: b d rule: rev_induct)
  case Nil
  then show ?case by simp
next
  case (snoc c cs)
  obtain b0 d0 where acc: "foldl tryCandidate (ALIGN_THRESHOLD + 1, 0) cs = (b0, d0)"
    by (cases "foldl tryCandidate (ALIGN_THRESHOLD + 1, 0) cs") 
  note IH = snoc.IH [OF acc]
  have step: "(b, d) = tryCandidate (b0, d0) c"
    using snoc.prems acc by simp
  show ?case
  proof (cases "fst c < b0 \<and> fst c \<le> ALIGN_THRESHOLD")
    case True
    then have bd: "(b, d) = c" using step by (simp add: tryCandidate_def)
    have "\<forall>c'\<in>set cs. fst c \<le> fst c'"
    proof
      fix c' assume c': "c' \<in> set cs"
      show "fst c \<le> fst c'"
      proof (cases "\<exists>c\<in>set cs. fst c \<le> ALIGN_THRESHOLD")
        case True
        with IH c' have "b0 \<le> fst c'" by auto
        with \<open>fst c < b0 \<and> fst c \<le> ALIGN_THRESHOLD\<close> show ?thesis by simp
      next
        case False
        with c' have "fst c' > ALIGN_THRESHOLD" by auto
        with \<open>fst c < b0 \<and> fst c \<le> ALIGN_THRESHOLD\<close> show ?thesis by simp
      qed
    qed
    with True bd show ?thesis by auto
  next
    case False
    have bd: "(b, d) = (b0, d0)" using step False by (auto simp: tryCandidate_def)
    show ?thesis
    proof (cases "\<exists>c\<in>set cs. fst c \<le> ALIGN_THRESHOLD")
      case True
      with IH have "(b0, d0) \<in> set cs" "b0 \<le> ALIGN_THRESHOLD" "\<forall>c\<in>set cs. b0 \<le> fst c" by auto
      with False bd True show ?thesis by auto
    next
      case none: False
      with IH have "(b0, d0) = (ALIGN_THRESHOLD + 1, 0)" by auto
      with False have "\<not> fst c \<le> ALIGN_THRESHOLD" by auto
      with none bd \<open>(b0, d0) = (ALIGN_THRESHOLD + 1, 0)\<close> show ?thesis by auto
    qed
  qed
qed

lemma alignStep_fold:
  "foldl (alignStep selfRect) (a, b) rs =
     (foldl tryCandidate a (concat (map (candidatesX selfRect) rs)),
      foldl tryCandidate b (concat (map (candidatesY selfRect) rs)))"
  by (induction rs arbitrary: a b) (simp_all add: alignStep_def)

lemma candidates_abs:
  "c \<in> set (concat (map (candidatesX selfRect) rs)) \<Longrightarrow> \<bar>snd c\<bar> = fst c"
  "c \<in> set (concat (map (candidatesY selfRect) rs)) \<Longrightarrow> \<bar>snd c\<bar> = fst c"
  by (auto simp: candidatesX_def candidatesY_def)

lemma snap_multiple: "\<exists>k::int. snap v = SNAP_SIZE * real_of_int k"
  by (auto simp: snap_def)

lemma snap_nearest: "\<bar>snap v - v\<bar> \<le> \<bar>SNAP_SIZE * real_of_int k - v\<bar>"
proof -
  define m where "m = \<lfloor>v / 16 + 1 / 2\<rfloor>"
  have sn: "snap v = 16 * real_of_int m"
    by (simp add: snap_def math_round_def SNAP_SIZE_def m_def)
  have "real_of_int m \<le> v / 16 + 1 / 2" unfolding m_def by (rule of_int_floor_le)
  then have lo: "16 * real_of_int m \<le> v + 8" by simp
  have "v / 16 + 1 / 2 < real_of_int m + 1" unfolding m_def by linarith
  then have hi: "v + 8 < 16 * real_of_int m + 16" by simp
  consider "k < m" | "k = m" | "k > m" by linarith
  then show ?thesis
  proof cases
    case 1
    then have "real_of_int k \<le> real_of_int m - 1" by linarith
    with lo hi show ?thesis unfolding sn SNAP_SIZE_def by linarith
  next
    case 2
    then show ?thesis unfolding sn SNAP_SIZE_def by simp
  next
    case 3
    then have "real_of_int k \<ge> real_of_int m + 1" by linarith
    with lo hi show ?thesis unfolding sn SNAP_SIZE_def by linarith
  qed
qed


lemma chosen_delta:
  assumes "foldl tryCandidate (ALIGN_THRESHOLD + 1, 0) cs = (b, d)"
    and "\<forall>c\<in>set cs. \<bar>snd c\<bar> = fst c"
  shows "\<bar>d\<bar> \<le> ALIGN_THRESHOLD
     \<and> (if \<exists>c\<in>set cs. fst c \<le> ALIGN_THRESHOLD
        then \<exists>c\<in>set cs. snd c = d \<and> fst c \<le> ALIGN_THRESHOLD \<and> (\<forall>c'\<in>set cs. fst c \<le> fst c')
        else d = 0)"
proof (cases "\<exists>c\<in>set cs. fst c \<le> ALIGN_THRESHOLD")
  case True
  with tryCandidate_fold [OF assms(1)]
  have in_cs: "(b, d) \<in> set cs" and le: "b \<le> ALIGN_THRESHOLD" and mn: "\<forall>c\<in>set cs. b \<le> fst c"
    by auto
  from in_cs assms(2) have "\<bar>d\<bar> = b" by fastforce
  with le have "\<bar>d\<bar> \<le> ALIGN_THRESHOLD" by simp
  moreover have "\<exists>c\<in>set cs. snd c = d \<and> fst c \<le> ALIGN_THRESHOLD \<and> (\<forall>c'\<in>set cs. fst c \<le> fst c')"
    using in_cs le mn by (intro bexI[of _ "(b, d)"]) auto
  ultimately show ?thesis using True by simp
next
  case False
  with tryCandidate_fold [OF assms(1)] have "d = 0" by auto
  with False show ?thesis by (simp add: ALIGN_THRESHOLD_def)
qed

lemma snapWidget_offset:
  "widgetState s i = Some w \<Longrightarrow>
   widgetState (snapWidget e i s) i =
     Some (w\<lparr> offset := \<lparr> xc = snap (xc (offset w) + snd (fst (align (getRect (releaseRect e (el w))) (otherRects e i)))),
                          yc = snap (yc (offset w) + snd (snd (align (getRect (releaseRect e (el w))) (otherRects e i)))) \<rparr> \<rparr>)"
  by (simp add: snapWidget_def Let_def)

text \<open>
  What \<open>snapWidget\<close> does to a widget that has an entry: the shift on each axis and
  the rounding of the new offset.
\<close>

lemma snapWidget_aligns:
  assumes "widgetState s i = Some w"
    and "selfRect = getRect (releaseRect e (el w))"
    and "cx = concat (map (candidatesX selfRect) (otherRects e i))"
    and "cy = concat (map (candidatesY selfRect) (otherRects e i))"
    and "w' = the (widgetState (snapWidget e i s) i)"
  shows "\<exists>dx dy.
      \<bar>dx\<bar> \<le> ALIGN_THRESHOLD \<and> \<bar>dy\<bar> \<le> ALIGN_THRESHOLD
    \<and> (if \<exists>c\<in>set cx. fst c \<le> ALIGN_THRESHOLD
       then \<exists>c\<in>set cx. snd c = dx \<and> fst c \<le> ALIGN_THRESHOLD \<and> (\<forall>c'\<in>set cx. fst c \<le> fst c')
       else dx = 0)
    \<and> (if \<exists>c\<in>set cy. fst c \<le> ALIGN_THRESHOLD
       then \<exists>c\<in>set cy. snd c = dy \<and> fst c \<le> ALIGN_THRESHOLD \<and> (\<forall>c'\<in>set cy. fst c \<le> fst c')
       else dy = 0)
    \<and> xc (offset w') = snap (xc (offset w) + dx) \<and> yc (offset w') = snap (yc (offset w) + dy)
    \<and> (\<forall>k::int. \<bar>xc (offset w') - (xc (offset w) + dx)\<bar> \<le> \<bar>SNAP_SIZE * real_of_int k - (xc (offset w) + dx)\<bar>)
    \<and> (\<forall>k::int. \<bar>yc (offset w') - (yc (offset w) + dy)\<bar> \<le> \<bar>SNAP_SIZE * real_of_int k - (yc (offset w) + dy)\<bar>)
    \<and> (\<exists>kx ky::int. xc (offset w') = SNAP_SIZE * real_of_int kx \<and> yc (offset w') = SNAP_SIZE * real_of_int ky)"
proof -
  obtain bx dx where fx: "foldl tryCandidate (ALIGN_THRESHOLD + 1, 0) cx = (bx, dx)"
    by (cases "foldl tryCandidate (ALIGN_THRESHOLD + 1, 0) cx")
  obtain by' dy where fy: "foldl tryCandidate (ALIGN_THRESHOLD + 1, 0) cy = (by', dy)"
    by (cases "foldl tryCandidate (ALIGN_THRESHOLD + 1, 0) cy")
  have al: "align selfRect (otherRects e i) = ((bx, dx), (by', dy))"
    using fx fy assms(3,4) by (simp add: align_def alignStep_fold)
  have ox: "xc (offset w') = snap (xc (offset w) + dx)" and oy: "yc (offset w') = snap (yc (offset w) + dy)"
    using snapWidget_offset [OF assms(1), of e] al assms(2,5) by simp_all
  have ax: "\<forall>c\<in>set cx. \<bar>snd c\<bar> = fst c" and ay: "\<forall>c\<in>set cy. \<bar>snd c\<bar> = fst c"
    using candidates_abs assms(3,4) by blast+
  note X = chosen_delta [OF fx ax] and Y = chosen_delta [OF fy ay]
  have nx: "\<forall>k::int. \<bar>xc (offset w') - (xc (offset w) + dx)\<bar> \<le> \<bar>SNAP_SIZE * real_of_int k - (xc (offset w) + dx)\<bar>"
    unfolding ox using snap_nearest by blast
  have ny: "\<forall>k::int. \<bar>yc (offset w') - (yc (offset w) + dy)\<bar> \<le> \<bar>SNAP_SIZE * real_of_int k - (yc (offset w) + dy)\<bar>"
    unfolding oy using snap_nearest by blast
  have mx: "\<exists>kx ky::int. xc (offset w') = SNAP_SIZE * real_of_int kx \<and> yc (offset w') = SNAP_SIZE * real_of_int ky"
    unfolding ox oy using snap_multiple by blast
  show ?thesis
    apply (rule exI[of _ dx], rule exI[of _ dy])
    using X Y ox oy nx ny mx by blast
qed

lemma demo_snap:
  "offset (the (widgetState (snapWidget demoEnv ''clock'' dragState) ''clock'')) = pt 96 96"
  apply (simp add: snapWidget_def dragState_def state0_def clockW_def Let_def align_def otherRects_def demoEnv_def
      enumerate_eq_zip alignStep_def candidatesX_def candidatesY_def tryCandidate_def getRect_def box_def
      ALIGN_THRESHOLD_def snap_def math_round_def SNAP_SIZE_def pt_def)
  done

subsection \<open>The toggle-edit command\<close>

text \<open>
  In Try-On mode with edit mode off, \<open>toggle-edit\<close> turns edit mode on: the command is
  not ignored.
\<close>

theorem toggle_edit_ignored_counterexample:
  "mode tryOnState = TryOn
   \<and> editMode (runAction demoEnv ''toggle-edit'' tryOnState) \<noteq> editMode tryOnState"
  by (simp add: tryOnState_def state0_def runAction_def setEditMode_def Let_def)

text \<open>
  C3, as the code has it. In Try-On mode \<open>runAction\<close> does not ignore \<open>toggle-edit\<close>:
  it flips the edit-mode flag as in any other mode, clears the drag binding when the flag
  becomes false, and leaves everything else as it was.
\<close>

theorem toggle_edit_in_tryon:
  assumes "mode s = TryOn"
  shows "runAction e ''toggle-edit'' s =
           s\<lparr> editMode := \<not> editMode s, draggingId := (if editMode s then None else draggingId s) \<rparr>"
  by (simp add: runAction_def setEditMode_def Let_def)

theorem toggle_edit_in_tryon_witness:
  "mode tryOnState = TryOn
   \<and> runAction demoEnv ''toggle-edit'' tryOnState = tryOnState\<lparr> editMode := True \<rparr>"
proof -
  have m: "mode tryOnState = TryOn" by (simp add: tryOnState_def)
  have "\<not> editMode tryOnState" "draggingId tryOnState = None"
    by (simp_all add: tryOnState_def state0_def)
  with toggle_edit_in_tryon [OF m, of demoEnv] m show ?thesis by simp
qed

subsection \<open>Incomplete hands\<close>

lemma processPinch_missing:
  "lm h 0 = None \<or> lm h 4 = None \<or> lm h 8 = None \<or> lm h 9 = None \<Longrightarrow>
   processPinch e h s = (Inl TypeError, s)"
  by (auto simp: processPinch_def distance_def split: option.splits)

lemma pinchLoop_fault:
  "processPinch e h (snd (pinchLoop e pre a s)) = (Inl TypeError, snd (pinchLoop e pre a s)) \<Longrightarrow>
   pinchLoop e (pre @ h # post) a s = (Inl TypeError, snd (pinchLoop e pre a s))"
proof (induction pre arbitrary: a s)
  case Nil
  then show ?case by simp
next
  case (Cons x pre)
  show ?case
  proof (cases "processPinch e x s")
    case (Pair r s1)
    show ?thesis
    proof (cases r)
      case (Inl err)
      with Pair show ?thesis by (cases err) simp
    next
      case (Inr b)
      with Pair Cons.prems show ?thesis
        by (simp add: Cons.IH)
    qed
  qed
qed

text \<open>
  C4, as the code has it. A hand that lacks landmark 0, 4, 8 or 9 is not skipped:
  \<open>processPinch\<close> raises a \<open>TypeError\<close> before it changes anything, and \<open>onResults\<close>
  ends with that exception, the state being what the hands before it left; the hands
  after it, the release, the swipe detection and the thumb detection are never reached. A
  hand that has these four landmarks, however short otherwise, is classified by
  \<open>processPinch\<close> like any other.
\<close>

theorem incomplete_hand_faults:
  "(lm h 0 = None \<or> lm h 4 = None \<or> lm h 8 = None \<or> lm h 9 = None \<longrightarrow>
      processPinch e h s = (Inl TypeError, s)
      \<and> onResults e (pre @ h # post) s = (Inl TypeError, snd (pinchLoop e pre False s)))
   \<and> (lm h 0 \<noteq> None \<and> lm h 4 \<noteq> None \<and> lm h 8 \<noteq> None \<and> lm h 9 \<noteq> None \<longrightarrow>
      (\<exists>b. fst (processPinch e h s) = Inr b))"
proof (intro conjI impI)
  assume m: "lm h 0 = None \<or> lm h 4 = None \<or> lm h 8 = None \<or> lm h 9 = None"
  show "processPinch e h s = (Inl TypeError, s)" by (rule processPinch_missing [OF m])
  have "pinchLoop e (pre @ h # post) False s = (Inl TypeError, snd (pinchLoop e pre False s))"
    by (rule pinchLoop_fault) (rule processPinch_missing [OF m])
  then show "onResults e (pre @ h # post) s = (Inl TypeError, snd (pinchLoop e pre False s))"
    by (simp add: onResults_def)
next
  assume "lm h 0 \<noteq> None \<and> lm h 4 \<noteq> None \<and> lm h 8 \<noteq> None \<and> lm h 9 \<noteq> None"
  then show "\<exists>b. fst (processPinch e h s) = Inr b"
    by (auto simp: processPinch_def distance_def Let_def split_beta)
qed

lemma lm_closedHand:
  "lm closedHand 4 = Some (pt (1/2) (1/2))" "lm closedHand 8 = Some (pt (1/2 + 0.06) (1/2))"
  "lm closedHand 0 = Some (pt 0 0)" "lm closedHand 9 = Some (pt (1/10) 0)"
  by (simp_all add: closedHand_def lm_pinchHand)

lemma demo_pinch:
  "processPinch demoEnv closedHand state0 = (Inr True, state0\<lparr> pinchActive := True, pinchMode := PIdle \<rparr>)"
  apply (simp add: processPinch_def distance_def lm_closedHand pt_def pinchThreshold_def Let_def)
  apply (simp add: state0_def pinchStart_def Let_def hitTestButtons_def demoEnv_def demoButtons_def buttonHit_def
       inside_def expanded_def box_def BUTTON_HIT_EXPAND_def BUTTON_COOLDOWN_MS_def)
  done

lemma lm_shortHand: "lm shortHand 8 = None"
  by (simp add: shortHand_def lm_def closedHand_def pinchHand_def)

lemma demo_frame_pinch:
  "pinchActive (snd (onResults demoEnv [closedHand] state0))"
  by (simp add: onResults_def demo_pinch) (simp add: swipeHand_def lm_closedHand state0_def Let_def)

text \<open>
  A frame of a hand with 8 landmarks followed by a pinching hand: the callback ends by a
  \<open>TypeError\<close> and the pinching hand, which alone would start a session, is never looked at.
\<close>

theorem incomplete_hand_skipped_counterexample:
  "length shortHand < 21
   \<and> fst (onResults demoEnv [shortHand, closedHand] state0) = Inl TypeError
   \<and> \<not> pinchActive (snd (onResults demoEnv [shortHand, closedHand] state0))
   \<and> pinchActive (snd (onResults demoEnv [closedHand] state0))"
proof -
  have "processPinch demoEnv shortHand state0 = (Inl TypeError, state0)"
    using lm_shortHand by (intro processPinch_missing) simp
  then have "onResults demoEnv [shortHand, closedHand] state0 = (Inl TypeError, state0)"
    by (simp add: onResults_def)
  moreover have "\<not> pinchActive state0" by (simp add: state0_def)
  moreover have "length shortHand < 21" by (simp add: shortHand_def)
  ultimately show ?thesis using demo_frame_pinch by simp
qed

theorem incomplete_hand_faults_witness:
  "lm shortHand 8 = None
   \<and> onResults demoEnv [shortHand, closedHand] state0 = (Inl TypeError, state0)
   \<and> length (tenHand) < 21
   \<and> (\<exists>b. fst (processPinch demoEnv (tenHand) state0) = Inr b)"
proof -
  have a: "lm shortHand 0 = None \<or> lm shortHand 4 = None \<or> lm shortHand 8 = None \<or> lm shortHand 9 = None"
    using lm_shortHand by simp
  have b: "lm (tenHand) 0 \<noteq> None \<and> lm (tenHand) 4 \<noteq> None
         \<and> lm (tenHand) 8 \<noteq> None \<and> lm (tenHand) 9 \<noteq> None"
    by (simp add: lm_def tenHand_def closedHand_def pinchHand_def)
  from incomplete_hand_faults [of shortHand demoEnv state0 "[]" "[closedHand]"] a
  have "onResults demoEnv [shortHand, closedHand] state0 = (Inl TypeError, state0)" by simp
  moreover from incomplete_hand_faults [of "tenHand" demoEnv state0 "[]" "[]"] b
  have "\<exists>b. fst (processPinch demoEnv (tenHand) state0) = Inr b" by blast
  ultimately show ?thesis using lm_shortHand by (simp add: tenHand_def)
qed

subsection \<open>The capture countdown\<close>

lemma triggerShutter_fires:
  "mode s = TryOn \<Longrightarrow> \<not> isCountingDown s \<Longrightarrow>
   triggerShutter s =
     s\<lparr> photoReady := False, captureDataUrl := None, countdownHidden := False, countdownText := 3,
        isCountingDown := True, intervals := (intervals s)(Suc (nextHandle s) \<mapsto> 3),
        nextHandle := Suc (nextHandle s), countdownTimer := Some (Suc (nextHandle s)) \<rparr>"
  by (simp add: triggerShutter_def hidePhotoPreview_def Let_def)

text \<open>
  C8. \<open>triggerShutter\<close> changes nothing unless the mode is Try-On and no countdown is
  running. When it fires, the label shows 3 and the countdown is running; the first firing
  of the interval callback shows 2, the second shows 1, and the third ends the countdown,
  hides the label, captures the photo and sets \<open>photoReady\<close>; the timer is cleared, so
  a further firing does nothing. (The callbacks are one second apart by \<open>setInterval\<close>;
  the model has the firings, not their times.)
\<close>

theorem shutter_countdown:
  "(mode s \<noteq> TryOn \<or> isCountingDown s \<longrightarrow> triggerShutter s = s)
   \<and> (mode s = TryOn \<and> \<not> isCountingDown s \<longrightarrow>
        (let s0 = triggerShutter s;
             h = the (countdownTimer s0);
             s1 = tick e1 h s0;
             s2 = tick e2 h s1;
             s3 = tick e3 h s2
         in isCountingDown s0 \<and> \<not> photoReady s0 \<and> \<not> countdownHidden s0 \<and> countdownText s0 = 3
          \<and> isCountingDown s1 \<and> \<not> photoReady s1 \<and> \<not> countdownHidden s1 \<and> countdownText s1 = 2
          \<and> isCountingDown s2 \<and> \<not> photoReady s2 \<and> \<not> countdownHidden s2 \<and> countdownText s2 = 1
          \<and> \<not> isCountingDown s3 \<and> photoReady s3 \<and> countdownHidden s3
          \<and> captureDataUrl s3 = Some (dataUrl e3)
          \<and> intervals s3 h = None \<and> tick e4 h s3 = s3))"
proof (intro conjI impI)
  assume "mode s \<noteq> TryOn \<or> isCountingDown s"
  then show "triggerShutter s = s" by (auto simp: triggerShutter_def)
next
  assume a: "mode s = TryOn \<and> \<not> isCountingDown s"
  then have t: "triggerShutter s =
     s\<lparr> photoReady := False, captureDataUrl := None, countdownHidden := False, countdownText := 3,
        isCountingDown := True, intervals := (intervals s)(Suc (nextHandle s) \<mapsto> 3),
        nextHandle := Suc (nextHandle s), countdownTimer := Some (Suc (nextHandle s)) \<rparr>"
    by (simp add: triggerShutter_fires)
  show "let s0 = triggerShutter s;
             h = the (countdownTimer s0);
             s1 = tick e1 h s0;
             s2 = tick e2 h s1;
             s3 = tick e3 h s2
         in isCountingDown s0 \<and> \<not> photoReady s0 \<and> \<not> countdownHidden s0 \<and> countdownText s0 = 3
          \<and> isCountingDown s1 \<and> \<not> photoReady s1 \<and> \<not> countdownHidden s1 \<and> countdownText s1 = 2
          \<and> isCountingDown s2 \<and> \<not> photoReady s2 \<and> \<not> countdownHidden s2 \<and> countdownText s2 = 1
          \<and> \<not> isCountingDown s3 \<and> photoReady s3 \<and> countdownHidden s3
          \<and> captureDataUrl s3 = Some (dataUrl e3)
          \<and> intervals s3 h = None \<and> tick e4 h s3 = s3"
    unfolding t by (simp add: tick_def Let_def capturePhoto_def clearInterval_def)
qed

text \<open>
  From the initial Try-On state the photo is ready after the third firing and not after
  the second; in Mirror mode the trigger does nothing.
\<close>

theorem shutter_countdown_witness:
  "mode tryOnState = TryOn \<and> \<not> isCountingDown tryOnState
   \<and> photoReady (tick demoEnv 1 (tick demoEnv 1 (tick demoEnv 1 (triggerShutter tryOnState))))
   \<and> \<not> photoReady (tick demoEnv 1 (tick demoEnv 1 (triggerShutter tryOnState)))
   \<and> mode state0 \<noteq> TryOn \<and> triggerShutter state0 = state0"
proof -
  have a: "mode tryOnState = TryOn \<and> \<not> isCountingDown tryOnState"
    and b: "mode state0 \<noteq> TryOn"
    by (simp_all add: tryOnState_def state0_def)
  have h: "the (countdownTimer (triggerShutter tryOnState)) = 1"
    by (simp add: triggerShutter_fires a) (simp add: tryOnState_def state0_def)
  from shutter_countdown [of tryOnState demoEnv demoEnv demoEnv demoEnv] a
  have "photoReady (tick demoEnv 1 (tick demoEnv 1 (tick demoEnv 1 (triggerShutter tryOnState))))
      \<and> \<not> photoReady (tick demoEnv 1 (tick demoEnv 1 (triggerShutter tryOnState)))"
    unfolding Let_def h by blast
  moreover from shutter_countdown [of state0 demoEnv demoEnv demoEnv demoEnv] b
  have "triggerShutter state0 = state0" by blast
  ultimately show ?thesis using a b by blast
qed

subsection \<open>Thumb gestures\<close>

lemma lm_complete: "length h = 21 \<Longrightarrow> i < 21 \<Longrightarrow> lm h i = Some (h ! i)"
  by (simp add: lm_def)

lemma fingersFolded_complete:
  "length h = 21 \<Longrightarrow>
   fingersFolded h = Inr (yc (h ! 8) > yc (h ! 6) + 2 / 100 \<and> yc (h ! 12) > yc (h ! 10) + 2 / 100
                        \<and> yc (h ! 16) > yc (h ! 14) + 2 / 100 \<and> yc (h ! 20) > yc (h ! 18) + 2 / 100)"
  by (simp add: fingersFolded_def folded_def cmpY_def andAlso_def lm_complete)

lemma thumbUp_complete:
  "length h = 21 \<Longrightarrow>
   thumbUp h = Inr (yc (h ! 4) < yc (h ! 2) - 4 / 100 \<and> yc (h ! 4) < yc (h ! 0) - 2 / 100)"
  by (simp add: thumbUp_def cmpY_def andAlso_def lm_complete)

lemma thumbDown_complete:
  "length h = 21 \<Longrightarrow>
   thumbDown h = Inr (yc (h ! 4) > yc (h ! 2) + 4 / 100 \<and> yc (h ! 4) > yc (h ! 0) + 2 / 100)"
  by (simp add: thumbDown_def cmpY_def andAlso_def lm_complete)

lemma thumbLoop_skip:
  "\<forall>g\<in>set pre. length g = 21 \<and>
       \<not> (fingersFolded g = Inr True \<and> (thumbUp g = Inr True \<or> thumbDown g = Inr True)) \<Longrightarrow>
   thumbLoop e (pre @ rest) s = thumbLoop e rest s"
proof (induction pre)
  case Nil
  then show ?case by simp
next
  case (Cons g pre)
  then have len: "length g = 21"
    and no: "\<not> (fingersFolded g = Inr True \<and> (thumbUp g = Inr True \<or> thumbDown g = Inr True))"
    by simp_all
  from Cons have IH: "thumbLoop e (pre @ rest) s = thumbLoop e rest s" by simp
  obtain ff up down where r: "fingersFolded g = Inr ff" "thumbUp g = Inr up" "thumbDown g = Inr down"
    using fingersFolded_complete [OF len] thumbUp_complete [OF len] thumbDown_complete [OF len]
    by blast
  with no have "\<not> ff \<or> (\<not> up \<and> \<not> down)" by auto
  then show ?case using r IH by auto
qed

text \<open>
  \<open>detectThumbGestures\<close> on its own: when the first hand that shows a gesture shows a
  thumbs-down, the photo is discarded and a fresh countdown starts.
\<close>

lemma detectThumbGestures_thumbs_down:
  assumes "mode s = TryOn" and "photoReady s" and "\<not> isCountingDown s"
    and "now e - lastGestureTime s \<ge> GESTURE_COOLDOWN_MS"
    and "\<forall>g\<in>set pre. length g = 21 \<and>
           \<not> (fingersFolded g = Inr True \<and> (thumbUp g = Inr True \<or> thumbDown g = Inr True))"
    and "length h = 21"
    and "yc (h ! 8) > yc (h ! 6) + 0.02" and "yc (h ! 12) > yc (h ! 10) + 0.02"
    and "yc (h ! 16) > yc (h ! 14) + 0.02" and "yc (h ! 20) > yc (h ! 18) + 0.02"
    and "yc (h ! 4) > yc (h ! 2) + 0.04" and "yc (h ! 4) > yc (h ! 0) + 0.02"
  shows "detectThumbGestures e (pre @ h # post) s =
           (Inr (), s\<lparr> lastGestureTime := now e, photoReady := False, captureDataUrl := None,
                       countdownHidden := False, countdownText := 3, isCountingDown := True,
                       intervals := (intervals s)(Suc (nextHandle s) \<mapsto> 3),
                       nextHandle := Suc (nextHandle s),
                       countdownTimer := Some (Suc (nextHandle s)) \<rparr>)"
proof -
  have ff: "fingersFolded h = Inr True"
    using assms(7-10) by (simp add: fingersFolded_complete [OF assms(6)])
  have up: "thumbUp h = Inr False"
    using assms(11) by (simp add: thumbUp_complete [OF assms(6)])
  have down: "thumbDown h = Inr True"
    using assms(11,12) by (simp add: thumbDown_complete [OF assms(6)])
  have "detectThumbGestures e (pre @ h # post) s = thumbLoop e (h # post) s"
    using assms(4) by (simp add: detectThumbGestures_def thumbLoop_skip [OF assms(5)])
  also have "\<dots> = (Inr (), retakePhoto (s\<lparr> lastGestureTime := now e \<rparr>))"
    by (simp add: ff up down)
  also have "retakePhoto (s\<lparr> lastGestureTime := now e \<rparr>) =
      s\<lparr> lastGestureTime := now e, photoReady := False, captureDataUrl := None,
                       countdownHidden := False, countdownText := 3, isCountingDown := True,
                       intervals := (intervals s)(Suc (nextHandle s) \<mapsto> 3),
                       nextHandle := Suc (nextHandle s),
                       countdownTimer := Some (Suc (nextHandle s)) \<rparr>"
    using assms(1,3) by (simp add: retakePhoto_def triggerShutter_def hidePhotoPreview_def Let_def)
  finally show ?thesis .
qed

lemma thumbDownHand_nth:
  "length thumbDownHand = 21"
  "thumbDownHand ! 8 = pt (1/2) (6/10)" "thumbDownHand ! 6 = pt (1/2) (1/2)"
  "thumbDownHand ! 12 = pt (1/2) (6/10)" "thumbDownHand ! 10 = pt (1/2) (1/2)"
  "thumbDownHand ! 16 = pt (1/2) (6/10)" "thumbDownHand ! 14 = pt (1/2) (1/2)"
  "thumbDownHand ! 20 = pt (1/2) (6/10)" "thumbDownHand ! 18 = pt (1/2) (1/2)"
  "thumbDownHand ! 4 = pt (1/2) (7/10)" "thumbDownHand ! 2 = pt (1/2) (1/2)"
  "thumbDownHand ! 0 = pt (1/2) (1/2)"
  by (simp_all add: thumbDownHand_def)

lemma closedHand_no_gesture:
  "length closedHand = 21" "fingersFolded closedHand = Inr False"
proof -
  show len: "length closedHand = 21" by (simp add: closedHand_def pinchHand_def)
  show "fingersFolded closedHand = Inr False"
    by (simp add: fingersFolded_complete [OF len]) (simp add: closedHand_def pinchHand_def pt_def)
qed

subsection \<open>Which variables each operation touches\<close>

lemma initWidgetState_fields [simp]:
  "draggingId (initWidgetState e s) = draggingId s" "pinchActive (initWidgetState e s) = pinchActive s"
  "pinchMode (initWidgetState e s) = pinchMode s" "editMode (initWidgetState e s) = editMode s"
  "lastButtonPress (initWidgetState e s) = lastButtonPress s" "mode (initWidgetState e s) = mode s"
  "flashed (initWidgetState e s) = flashed s" "isCountingDown (initWidgetState e s) = isCountingDown s"
  by (simp_all add: initWidgetState_def)

lemma resetPanels_fields [simp]:
  "draggingId (resetPanels e s) = draggingId s" "pinchActive (resetPanels e s) = pinchActive s"
  "pinchMode (resetPanels e s) = pinchMode s" "editMode (resetPanels e s) = editMode s"
  "lastButtonPress (resetPanels e s) = lastButtonPress s" "mode (resetPanels e s) = mode s"
  "flashed (resetPanels e s) = flashed s" "isCountingDown (resetPanels e s) = isCountingDown s"
  by (simp_all add: resetPanels_def)

lemma setWidgetPosition_fields [simp]:
  "draggingId (setWidgetPosition i x y s) = draggingId s" "pinchActive (setWidgetPosition i x y s) = pinchActive s"
  "pinchMode (setWidgetPosition i x y s) = pinchMode s" "editMode (setWidgetPosition i x y s) = editMode s"
  "lastButtonPress (setWidgetPosition i x y s) = lastButtonPress s" "mode (setWidgetPosition i x y s) = mode s"
  "flashed (setWidgetPosition i x y s) = flashed s"
  by (simp_all add: setWidgetPosition_def split: option.splits)

lemma snapWidget_fields [simp]:
  "draggingId (snapWidget e i s) = draggingId s" "pinchActive (snapWidget e i s) = pinchActive s"
  "pinchMode (snapWidget e i s) = pinchMode s" "editMode (snapWidget e i s) = editMode s"
  "lastButtonPress (snapWidget e i s) = lastButtonPress s" "mode (snapWidget e i s) = mode s"
  "flashed (snapWidget e i s) = flashed s"
  by (simp_all add: snapWidget_def Let_def split: option.splits)

lemma setEditMode_fields [simp]:
  "draggingId (setEditMode on s) = (if on then draggingId s else None)"
  "editMode (setEditMode on s) = on"
  "pinchActive (setEditMode on s) = pinchActive s" "pinchMode (setEditMode on s) = pinchMode s"
  "lastButtonPress (setEditMode on s) = lastButtonPress s" "mode (setEditMode on s) = mode s"
  "flashed (setEditMode on s) = flashed s" "isCountingDown (setEditMode on s) = isCountingDown s"
  by (simp_all add: setEditMode_def Let_def)

lemma hidePhotoPreview_fields [simp]:
  "draggingId (hidePhotoPreview s) = draggingId s" "pinchActive (hidePhotoPreview s) = pinchActive s"
  "pinchMode (hidePhotoPreview s) = pinchMode s" "editMode (hidePhotoPreview s) = editMode s"
  "lastButtonPress (hidePhotoPreview s) = lastButtonPress s" "mode (hidePhotoPreview s) = mode s"
  "flashed (hidePhotoPreview s) = flashed s" "isCountingDown (hidePhotoPreview s) = isCountingDown s"
  by (simp_all add: hidePhotoPreview_def)

lemma clearInterval_fields [simp]:
  "draggingId (clearInterval t s) = draggingId s" "pinchActive (clearInterval t s) = pinchActive s"
  "pinchMode (clearInterval t s) = pinchMode s" "editMode (clearInterval t s) = editMode s"
  "lastButtonPress (clearInterval t s) = lastButtonPress s" "mode (clearInterval t s) = mode s"
  "flashed (clearInterval t s) = flashed s"
  by (simp_all add: clearInterval_def split: option.splits)

lemma triggerShutter_fields [simp]:
  "draggingId (triggerShutter s) = draggingId s" "pinchActive (triggerShutter s) = pinchActive s"
  "pinchMode (triggerShutter s) = pinchMode s" "editMode (triggerShutter s) = editMode s"
  "lastButtonPress (triggerShutter s) = lastButtonPress s" "mode (triggerShutter s) = mode s"
  "flashed (triggerShutter s) = flashed s"
  by (simp_all add: triggerShutter_def Let_def)

lemma retakePhoto_fields [simp]:
  "draggingId (retakePhoto s) = draggingId s" "pinchActive (retakePhoto s) = pinchActive s"
  "pinchMode (retakePhoto s) = pinchMode s" "editMode (retakePhoto s) = editMode s"
  "lastButtonPress (retakePhoto s) = lastButtonPress s" "mode (retakePhoto s) = mode s"
  "flashed (retakePhoto s) = flashed s"
  by (simp_all add: retakePhoto_def)

lemma savePhoto_fields [simp]:
  "draggingId (savePhoto s) = draggingId s" "pinchActive (savePhoto s) = pinchActive s"
  "pinchMode (savePhoto s) = pinchMode s" "editMode (savePhoto s) = editMode s"
  "lastButtonPress (savePhoto s) = lastButtonPress s" "mode (savePhoto s) = mode s"
  "flashed (savePhoto s) = flashed s"
  by (simp_all add: savePhoto_def)

lemma tick_fields [simp]:
  "draggingId (tick e h s) = draggingId s" "pinchActive (tick e h s) = pinchActive s"
  "pinchMode (tick e h s) = pinchMode s" "editMode (tick e h s) = editMode s"
  "lastButtonPress (tick e h s) = lastButtonPress s" "mode (tick e h s) = mode s"
  "flashed (tick e h s) = flashed s"
  by (simp_all add: tick_def capturePhoto_def Let_def split: option.splits)

lemma flashButton_fields [simp]:
  "draggingId (flashButton b s) = draggingId s" "pinchActive (flashButton b s) = pinchActive s"
  "pinchMode (flashButton b s) = pinchMode s" "editMode (flashButton b s) = editMode s"
  "lastButtonPress (flashButton b s) = lastButtonPress s" "mode (flashButton b s) = mode s"
  "flashed (flashButton b s) = flashed s @ [b]"
  by (simp_all add: flashButton_def)

lemma setMode_fields [simp]:
  "mode (setMode next s) = next"
  "draggingId (setMode next s) = (if mode s \<noteq> next \<and> next = TryOn then None else draggingId s)"
  "editMode (setMode next s) = (if mode s \<noteq> next \<and> next = TryOn then False else editMode s)"
  "pinchActive (setMode next s) = pinchActive s" "pinchMode (setMode next s) = pinchMode s"
  "lastButtonPress (setMode next s) = lastButtonPress s" "flashed (setMode next s) = flashed s"
  by (simp_all add: setMode_def Let_def)

lemma runAction_fields [simp]:
  "draggingId (runAction e a s) = (if a = ''toggle-edit'' \<and> editMode s then None else draggingId s)"
  "editMode (runAction e a s) = (if a = ''toggle-edit'' then \<not> editMode s else editMode s)"
  "pinchActive (runAction e a s) = pinchActive s" "pinchMode (runAction e a s) = pinchMode s"
  "lastButtonPress (runAction e a s) = lastButtonPress s" "mode (runAction e a s) = mode s"
  "flashed (runAction e a s) = flashed s"
  by (simp_all add: runAction_def Let_def)

lemma release_fields [simp]:
  "draggingId (release e s) = None" "pinchActive (release e s) = False"
  "pinchMode (release e s) = PNone" "editMode (release e s) = editMode s"
  "lastButtonPress (release e s) = lastButtonPress s" "mode (release e s) = mode s"
  "flashed (release e s) = flashed s"
  by (simp_all add: release_def Let_def)

subsection \<open>One hand\<close>

lemma pinchStart_active [simp]:
  "pinchActive (snd (pinchStart e pu pm s))" "mode (snd (pinchStart e pu pm s)) = mode s"
  by (simp_all add: pinchStart_def Let_def)

lemma pinchStart_fired:
  "fst (pinchStart e pu pm s) \<longleftrightarrow>
     hitTestButtons e pu \<noteq> None \<and> now e - lastButtonPress s > BUTTON_COOLDOWN_MS"
  by (simp add: pinchStart_def Let_def)

lemma pinchStart_button:
  "fst (pinchStart e pu pm s) \<Longrightarrow>
     lastButtonPress (snd (pinchStart e pu pm s)) = now e
     \<and> flashed (snd (pinchStart e pu pm s)) = flashed s @ [the (hitTestButtons e pu)]
     \<and> pinchMode (snd (pinchStart e pu pm s)) = PButton"
  by (simp add: pinchStart_def Let_def split: if_splits)

lemma pinchStart_quiet:
  "\<not> fst (pinchStart e pu pm s) \<Longrightarrow>
     lastButtonPress (snd (pinchStart e pu pm s)) = lastButtonPress s
     \<and> flashed (snd (pinchStart e pu pm s)) = flashed s
     \<and> editMode (snd (pinchStart e pu pm s)) = editMode s"
  by (simp add: pinchStart_def Let_def split: if_splits)

text \<open>
  The four ways \<open>processPinch\<close> can go: nothing happens (exception or no pinch); a
  session is active and at most the bound widget moves; a session starts and a button
  fires; a session starts without a button and at most the new bound widget moves.
\<close>

lemma processPinch_shape:
  "(fst (processPinch e h s) \<noteq> Inr True \<and> snd (processPinch e h s) = s)
   \<or> (fst (processPinch e h s) = Inr True \<and> pinchActive s
        \<and> (snd (processPinch e h s) = s
            \<or> (\<exists>i x y. snd (processPinch e h s) = setWidgetPosition i x y s)))
   \<or> (fst (processPinch e h s) = Inr True \<and> \<not> pinchActive s
        \<and> (\<exists>pu pm. (fst (pinchStart e pu pm s) \<and> snd (processPinch e h s) = snd (pinchStart e pu pm s))
              \<or> (\<not> fst (pinchStart e pu pm s)
                  \<and> (snd (processPinch e h s) = snd (pinchStart e pu pm s)
                      \<or> (\<exists>i x y. snd (processPinch e h s)
                                    = setWidgetPosition i x y (snd (pinchStart e pu pm s)))))))"
proof (cases "distance (lm h 4) (lm h 8)")
  case (Inl err)
  then show ?thesis by (simp add: processPinch_def)
next
  case st: (Inr pinchStrength)
  show ?thesis
  proof (cases "distance (lm h 0) (lm h 9)")
    case (Inl err)
    with st show ?thesis by (simp add: processPinch_def)
  next
    case sp: (Inr handSpan)
    show ?thesis
    proof (cases "pinchStrength < pinchThreshold handSpan")
      case False
      with st sp show ?thesis by (simp add: processPinch_def Let_def)
    next
      case pinching: True
      show ?thesis
      proof (cases "pinchActive s")
        case True
        with st sp pinching show ?thesis
          by (simp add: processPinch_def Let_def) blast
      next
        case False
        define mx where "mx = (if mode s = TryOn then xc (the (lm h 8)) else 1 - xc (the (lm h 8)))"
        define pm where "pm = \<lparr> xc = r_left (mirrorRect e) + mx * r_width (mirrorRect e),
                                yc = r_top (mirrorRect e) + yc (the (lm h 8)) * r_height (mirrorRect e) \<rparr>"
        define pu where "pu = \<lparr> xc = mx * innerWidth e, yc = yc (the (lm h 8)) * innerHeight e \<rparr>"
        obtain fired s1 where ps: "pinchStart e pu pm s = (fired, s1)"
          by (cases "pinchStart e pu pm s")
        have pp: "processPinch e h s =
              (if fired then (Inr True, s1)
               else (Inr True,
                     if pinchMode s1 = PDrag \<and> truthy (draggingId s1) \<and> editMode s1 \<and> mode s1 = Mirror
                     then setWidgetPosition (the (draggingId s1)) (xc pm) (yc pm) s1 else s1))"
          using st sp pinching False ps
          by (simp add: processPinch_def Let_def mx_def [symmetric] pm_def [symmetric] pu_def [symmetric])
        have "(fst (pinchStart e pu pm s) \<and> snd (processPinch e h s) = snd (pinchStart e pu pm s))
              \<or> (\<not> fst (pinchStart e pu pm s)
                  \<and> (snd (processPinch e h s) = snd (pinchStart e pu pm s)
                      \<or> (\<exists>i x y. snd (processPinch e h s)
                                    = setWidgetPosition i x y (snd (pinchStart e pu pm s)))))"
          unfolding pp ps by (cases fired) auto
        moreover have "fst (processPinch e h s) = Inr True"
          unfolding pp by simp
        ultimately show ?thesis using False by blast
      qed
    qed
  qed
qed

text \<open>While a session is active a hand can only move the bound widget.\<close>

lemma processPinch_active:
  assumes "pinchActive s"
  shows "draggingId (snd (processPinch e h s)) = draggingId s"
    and "pinchActive (snd (processPinch e h s))"
    and "pinchMode (snd (processPinch e h s)) = pinchMode s"
    and "editMode (snd (processPinch e h s)) = editMode s"
    and "lastButtonPress (snd (processPinch e h s)) = lastButtonPress s"
    and "mode (snd (processPinch e h s)) = mode s"
    and "flashed (snd (processPinch e h s)) = flashed s"
  using assms processPinch_shape [of e h s] by auto

lemma processPinch_mode [simp]: "mode (snd (processPinch e h s)) = mode s"
  using processPinch_shape [of e h s] by auto

lemma processPinch_not_pinching:
  "fst (processPinch e h s) \<noteq> Inr True \<Longrightarrow> snd (processPinch e h s) = s"
  using processPinch_shape [of e h s] by auto

lemma processPinch_pinching:
  "fst (processPinch e h s) = Inr True \<Longrightarrow> pinchActive (snd (processPinch e h s))"
  using processPinch_shape [of e h s] by auto

text \<open>A hand hands a button to \<open>flashButton\<close> only at the start of a session, after the cooldown.\<close>

lemma processPinch_fire:
  assumes "flashed (snd (processPinch e h s)) \<noteq> flashed s"
  shows "\<not> pinchActive s \<and> now e - lastButtonPress s > BUTTON_COOLDOWN_MS
     \<and> lastButtonPress (snd (processPinch e h s)) = now e
     \<and> pinchMode (snd (processPinch e h s)) = PButton
     \<and> (\<exists>p btn. hitTestButtons e p = Some btn \<and> flashed (snd (processPinch e h s)) = flashed s @ [btn])"
proof -
  have n1: "snd (processPinch e h s) = s \<Longrightarrow> False" using assms by simp
  have n2: "\<And>i x y. snd (processPinch e h s) = setWidgetPosition i x y s \<Longrightarrow> False"
    using assms by simp
  have n3: "\<And>pu pm. \<not> fst (pinchStart e pu pm s) \<Longrightarrow>
             snd (processPinch e h s) = snd (pinchStart e pu pm s)
             \<or> (\<exists>i x y. snd (processPinch e h s) = setWidgetPosition i x y (snd (pinchStart e pu pm s)))
             \<Longrightarrow> False"
    using assms pinchStart_quiet by fastforce
  from processPinch_shape [of e h s] n1 n2 n3
  obtain pu pm where np: "\<not> pinchActive s" and fired: "fst (pinchStart e pu pm s)"
    and eq: "snd (processPinch e h s) = snd (pinchStart e pu pm s)"
    by blast
  from fired have hit: "hitTestButtons e pu \<noteq> None" and cool: "now e - lastButtonPress s > BUTTON_COOLDOWN_MS"
    by (simp_all add: pinchStart_fired)
  from hit obtain btn where btn: "hitTestButtons e pu = Some btn" by auto
  show ?thesis
    using np cool pinchStart_button [OF fired] btn unfolding eq by auto
qed

lemma processPinch_no_fire:
  assumes "flashed (snd (processPinch e h s)) = flashed s"
  shows "lastButtonPress (snd (processPinch e h s)) = lastButtonPress s"
proof -
  have a: "snd (processPinch e h s) = s \<Longrightarrow> ?thesis" by simp
  have b: "\<And>i x y. snd (processPinch e h s) = setWidgetPosition i x y s \<Longrightarrow> ?thesis" by simp
  have c: "\<And>pu pm. fst (pinchStart e pu pm s) \<Longrightarrow>
             snd (processPinch e h s) = snd (pinchStart e pu pm s) \<Longrightarrow> ?thesis"
    using assms pinchStart_button by fastforce
  have d: "\<And>pu pm. \<not> fst (pinchStart e pu pm s) \<Longrightarrow>
             snd (processPinch e h s) = snd (pinchStart e pu pm s)
             \<or> (\<exists>i x y. snd (processPinch e h s) = setWidgetPosition i x y (snd (pinchStart e pu pm s)))
             \<Longrightarrow> ?thesis"
    using pinchStart_quiet by fastforce
  from processPinch_shape [of e h s] a b c d show ?thesis by blast
qed

subsection \<open>All hands of a frame\<close>

lemma pinchLoop_active:
  assumes "pinchActive s"
  shows "draggingId (snd (pinchLoop e hs a s)) = draggingId s
       \<and> pinchActive (snd (pinchLoop e hs a s))
       \<and> editMode (snd (pinchLoop e hs a s)) = editMode s
       \<and> lastButtonPress (snd (pinchLoop e hs a s)) = lastButtonPress s
       \<and> mode (snd (pinchLoop e hs a s)) = mode s
       \<and> flashed (snd (pinchLoop e hs a s)) = flashed s"
  using assms
proof (induction hs arbitrary: a s)
  case Nil
  then show ?case by simp
next
  case (Cons h hs)
  obtain r s1 where pp: "processPinch e h s = (r, s1)" by (cases "processPinch e h s")
  have s1: "s1 = snd (processPinch e h s)" using pp by simp
  note keep = processPinch_active [OF Cons.prems, of e h, folded s1]
  show ?case
  proof (cases r)
    case (Inl err)
    with pp keep show ?thesis by simp
  next
    case (Inr b)
    from Cons.IH [OF keep(2)] keep pp Inr show ?thesis by simp
  qed
qed

lemma pinchLoop_mode [simp]: "mode (snd (pinchLoop e hs a s)) = mode s"
proof (induction hs arbitrary: a s)
  case Nil
  then show ?case by simp
next
  case (Cons h hs)
  obtain r s1 where pp: "processPinch e h s = (r, s1)" by (cases "processPinch e h s")
  have "mode s1 = mode s" using pp processPinch_mode [of e h s] by simp
  with pp Cons.IH show ?case by (cases r) simp_all
qed

text \<open>
  When the loop ends without exception, its flag tells whether a hand pinched: if not,
  nothing changed; if so (and the flag started false), a session is active.
\<close>

lemma pinchLoop_flag:
  "pinchLoop e hs a s = (Inr b, s1) \<Longrightarrow>
     (a \<longrightarrow> b) \<and> (b \<longrightarrow> a \<or> pinchActive s1) \<and> (\<not> b \<longrightarrow> s1 = s)"
proof (induction hs arbitrary: a s)
  case Nil
  then show ?case by auto
next
  case (Cons h hs)
  obtain r s0 where pp: "processPinch e h s = (r, s0)" by (cases "processPinch e h s")
  show ?case
  proof (cases r)
    case (Inl err)
    with pp Cons.prems show ?thesis by simp
  next
    case (Inr c)
    with pp Cons.prems have rest: "pinchLoop e hs (if c then True else a) s0 = (Inr b, s1)" by simp
    note IH = Cons.IH [OF rest]
    show ?thesis
    proof (cases c)
      case True
      with pp Inr have "pinchActive s0" using processPinch_pinching [of e h s] by simp
      then have "pinchActive (snd (pinchLoop e hs True s0))" by (simp add: pinchLoop_active)
      with rest True have "pinchActive s1" by simp
      moreover from IH True have "b" by auto
      ultimately show ?thesis by simp
    next
      case False
      with pp Inr have "s0 = s" using processPinch_not_pinching [of e h s] by simp
      with IH False show ?thesis by simp
    qed
  qed
qed

lemma pinchLoop_fault_keeps:
  "fst (pinchLoop e hs a s) = Inl err \<Longrightarrow> pinchActive s \<or> pinchActive (snd (pinchLoop e hs a s)) \<or> snd (pinchLoop e hs a s) = s"
proof (induction hs arbitrary: a s)
  case Nil
  then show ?case by simp
next
  case (Cons h hs)
  obtain r s0 where pp: "processPinch e h s = (r, s0)" by (cases "processPinch e h s")
  show ?case
  proof (cases r)
    case (Inl err')
    with pp have "s0 = s" using processPinch_not_pinching [of e h s] by simp
    with pp Inl show ?thesis by simp
  next
    case (Inr c)
    show ?thesis
    proof (cases c)
      case True
      with pp Inr have "pinchActive s0" using processPinch_pinching [of e h s] by simp
      then have "pinchActive (snd (pinchLoop e hs True s0))" by (simp add: pinchLoop_active)
      with pp Inr True show ?thesis by simp
    next
      case False
      with pp Inr have "s0 = s" using processPinch_not_pinching [of e h s] by simp
      with pp Inr False Cons.prems Cons.IH [of a s] show ?thesis by simp
    qed
  qed
qed

text \<open>The loop hands at most one button to \<open>flashButton\<close>, and only as \<open>processPinch\<close> allows.\<close>

lemma pinchLoop_fire:
  "flashed (snd (pinchLoop e hs a s)) \<noteq> flashed s \<Longrightarrow>
     \<not> pinchActive s \<and> now e - lastButtonPress s > BUTTON_COOLDOWN_MS
     \<and> lastButtonPress (snd (pinchLoop e hs a s)) = now e
     \<and> pinchActive (snd (pinchLoop e hs a s))
     \<and> (\<exists>p btn. hitTestButtons e p = Some btn \<and> flashed (snd (pinchLoop e hs a s)) = flashed s @ [btn])"
proof (induction hs arbitrary: a s)
  case Nil
  then show ?case by simp
next
  case (Cons h hs)
  obtain r s0 where pp: "processPinch e h s = (r, s0)" by (cases "processPinch e h s")
  have s0: "s0 = snd (processPinch e h s)" and r: "r = fst (processPinch e h s)" using pp by simp_all
  show ?case
  proof (cases "r = Inr True")
    case True
    then have act: "pinchActive s0" using processPinch_pinching [of e h s] r s0 by simp
    have loop: "snd (pinchLoop e (h # hs) a s) = snd (pinchLoop e hs True s0)"
      using pp True by simp
    note keep = pinchLoop_active [OF act, of e hs True]
    from Cons.prems have "flashed s0 \<noteq> flashed s" unfolding loop using keep by simp
    from processPinch_fire [of e h s] this show ?thesis
      unfolding loop using keep s0 by auto
  next
    case False
    then have same: "s0 = s" using processPinch_not_pinching [of e h s] r s0 by simp
    show ?thesis
    proof (cases r)
      case (Inl err)
      with pp same Cons.prems show ?thesis by simp
    next
      case (Inr c)
      with False have "\<not> c" by simp
      with pp Inr same have loop: "pinchLoop e (h # hs) a s = pinchLoop e hs a s" by simp
      from Cons.prems Cons.IH [of a s] show ?thesis unfolding loop by simp
    qed
  qed
qed

lemma pinchLoop_no_fire:
  "flashed (snd (pinchLoop e hs a s)) = flashed s \<Longrightarrow>
     lastButtonPress (snd (pinchLoop e hs a s)) = lastButtonPress s"
proof (induction hs arbitrary: a s)
  case Nil
  then show ?case by simp
next
  case (Cons h hs)
  obtain r s0 where pp: "processPinch e h s = (r, s0)" by (cases "processPinch e h s")
  have s0: "s0 = snd (processPinch e h s)" and r: "r = fst (processPinch e h s)" using pp by simp_all
  show ?case
  proof (cases "r = Inr True")
    case True
    then have act: "pinchActive s0" using processPinch_pinching [of e h s] r s0 by simp
    have loop: "snd (pinchLoop e (h # hs) a s) = snd (pinchLoop e hs True s0)"
      using pp True by simp
    note keep = pinchLoop_active [OF act, of e hs True]
    from Cons.prems have "flashed s0 = flashed s" unfolding loop using keep by simp
    from processPinch_no_fire [of e h s] this show ?thesis
      unfolding loop using keep s0 by auto
  next
    case False
    then have same: "s0 = s" using processPinch_not_pinching [of e h s] r s0 by simp
    show ?thesis
    proof (cases r)
      case (Inl err)
      with pp same show ?thesis by simp
    next
      case (Inr c)
      with False have "\<not> c" by simp
      with pp Inr same have loop: "pinchLoop e (h # hs) a s = pinchLoop e hs a s" by simp
      from Cons.prems Cons.IH [of a s] show ?thesis unfolding loop by simp
    qed
  qed
qed

subsection \<open>Swipes and thumb gestures\<close>

lemma swipeHand_fields [simp]:
  "pinchActive (snd (swipeHand e h s)) = pinchActive s"
  "lastButtonPress (snd (swipeHand e h s)) = lastButtonPress s"
  "flashed (snd (swipeHand e h s)) = flashed s"
  by (simp_all add: swipeHand_def Let_def split: option.splits)

lemma swipeHand_active:
  "pinchActive s \<Longrightarrow> mode (snd (swipeHand e h s)) = mode s
     \<and> editMode (snd (swipeHand e h s)) = editMode s
     \<and> draggingId (snd (swipeHand e h s)) = draggingId s"
  by (simp add: swipeHand_def Let_def split: option.splits)

lemma swipeHand_unbound:
  "draggingId s = None \<Longrightarrow> draggingId (snd (swipeHand e h s)) = None"
  by (simp add: swipeHand_def Let_def split: option.splits)

lemma detectSwipes_snd:
  "snd (detectSwipes e (h # hs) s) =
     (case fst (swipeHand e h s) of
        Inl err \<Rightarrow> snd (swipeHand e h s)
      | Inr u \<Rightarrow> snd (detectSwipes e hs (snd (swipeHand e h s))))"
  by (simp split: prod.splits sum.splits)

lemma detectSwipes_fields [simp]:
  "pinchActive (snd (detectSwipes e hs s)) = pinchActive s"
  "lastButtonPress (snd (detectSwipes e hs s)) = lastButtonPress s"
  "flashed (snd (detectSwipes e hs s)) = flashed s"
  by (induction hs arbitrary: s)
     (simp_all add: detectSwipes_snd del: detectSwipes.simps(2) split: sum.splits)

lemma detectSwipes_active:
  "pinchActive s \<Longrightarrow> mode (snd (detectSwipes e hs s)) = mode s
     \<and> editMode (snd (detectSwipes e hs s)) = editMode s
     \<and> draggingId (snd (detectSwipes e hs s)) = draggingId s"
  by (induction hs arbitrary: s)
     (simp_all add: detectSwipes_snd swipeHand_active del: detectSwipes.simps(2) split: sum.splits)

lemma detectSwipes_unbound:
  "draggingId s = None \<Longrightarrow> draggingId (snd (detectSwipes e hs s)) = None"
  by (induction hs arbitrary: s)
     (simp_all add: detectSwipes_snd swipeHand_unbound del: detectSwipes.simps(2) split: sum.splits)

lemma thumbLoop_fields [simp]:
  "draggingId (snd (thumbLoop e hs s)) = draggingId s" "pinchActive (snd (thumbLoop e hs s)) = pinchActive s"
  "editMode (snd (thumbLoop e hs s)) = editMode s" "lastButtonPress (snd (thumbLoop e hs s)) = lastButtonPress s"
  "mode (snd (thumbLoop e hs s)) = mode s" "flashed (snd (thumbLoop e hs s)) = flashed s"
  by (induction hs) (simp_all split: sum.splits)

lemma detectThumbGestures_fields [simp]:
  "draggingId (snd (detectThumbGestures e hs s)) = draggingId s"
  "pinchActive (snd (detectThumbGestures e hs s)) = pinchActive s"
  "editMode (snd (detectThumbGestures e hs s)) = editMode s"
  "lastButtonPress (snd (detectThumbGestures e hs s)) = lastButtonPress s"
  "mode (snd (detectThumbGestures e hs s)) = mode s"
  "flashed (snd (detectThumbGestures e hs s)) = flashed s"
  by (simp_all add: detectThumbGestures_def)

subsection \<open>One frame\<close>

lemma onResults_tail:
  "hs \<noteq> [] \<Longrightarrow>
     snd (onResults e hs s) = afterPinch e hs s
     \<or> snd (onResults e hs s) = snd (detectSwipes e hs (afterPinch e hs s))
     \<or> snd (onResults e hs s) = snd (detectThumbGestures e hs (snd (detectSwipes e hs (afterPinch e hs s))))"
  by (auto simp: onResults_def afterPinch_def Let_def split: prod.splits sum.splits)

subsection \<open>The drag binding\<close>

lemma afterPinch_bound:
  assumes "pinchActive s"
  shows "(pinchActive (afterPinch e hs s) \<and> draggingId (afterPinch e hs s) = draggingId s
            \<and> editMode (afterPinch e hs s) = editMode s)
       \<or> (\<not> pinchActive (afterPinch e hs s) \<and> draggingId (afterPinch e hs s) = None)"
proof -
  obtain r s1 where pl: "pinchLoop e hs False s = (r, s1)" by (cases "pinchLoop e hs False s")
  have s1: "s1 = snd (pinchLoop e hs False s)" using pl by simp
  note keep = pinchLoop_active [OF assms, of e hs False, folded s1]
  show ?thesis
  proof (cases r)
    case (Inl err)
    with pl keep show ?thesis by (simp add: afterPinch_def)
  next
    case (Inr anyPinch)
    with pl keep show ?thesis by (simp add: afterPinch_def)
  qed
qed

lemma onResults_bound:
  assumes "pinchActive s" and "draggingId s = Some w"
  shows "(pinchActive (snd (onResults e hs s)) \<and> draggingId (snd (onResults e hs s)) = Some w)
       \<or> (\<not> pinchActive (snd (onResults e hs s)) \<and> draggingId (snd (onResults e hs s)) = None)"
proof (cases "hs = []")
  case True
  then show ?thesis by (simp add: onResults_def)
next
  case False
  let ?s2 = "afterPinch e hs s"
  have tail: "(pinchActive ?s2 \<and> draggingId ?s2 = Some w) \<or> (\<not> pinchActive ?s2 \<and> draggingId ?s2 = None)"
    using afterPinch_bound [OF assms(1), of e hs] assms(2) by auto
  have sw: "(pinchActive (snd (detectSwipes e hs ?s2)) \<and> draggingId (snd (detectSwipes e hs ?s2)) = Some w)
          \<or> (\<not> pinchActive (snd (detectSwipes e hs ?s2)) \<and> draggingId (snd (detectSwipes e hs ?s2)) = None)"
    using tail detectSwipes_active [of ?s2 e hs] detectSwipes_unbound [of ?s2 e hs] by auto
  from onResults_tail [OF False, of e s] tail sw show ?thesis by auto
qed

lemma step_bound:
  assumes "pinchActive s" and "draggingId s = Some w"
  shows "(pinchActive (step ev s) \<and> draggingId (step ev s) = Some w)
       \<or> (draggingId (step ev s) = None \<and> (\<not> pinchActive (step ev s) \<or> \<not> editMode (step ev s)))"
proof (cases ev)
  case (Frame e hs)
  with onResults_bound [OF assms, of e hs] show ?thesis by auto
next
  case (Click e btn)
  with assms show ?thesis by (simp add: clickButton_def)
next
  case (Tick e h)
  with assms show ?thesis by simp
qed

lemma run_append: "run (xs @ ys) s = run ys (run xs s)"
  by (induction xs arbitrary: s) simp_all

text \<open>
  C5. From a state whose session is active and bound to widget \<open>w\<close>: no hand of a frame
  changes the binding, and after any sequence of frames, button clicks and timer firings
  either the session is still active and bound to \<open>w\<close>, or the run has passed a point
  where the binding was cleared with the session inactive (no hand pinching, or no hands)
  or edit mode off. A binding to another widget can only come after such a release.
\<close>

theorem drag_binding_stable:
  assumes "pinchActive s" and "draggingId s = Some w"
  shows "draggingId (snd (pinchLoop e hs a s)) = Some w
     \<and> ((pinchActive (run evs s) \<and> draggingId (run evs s) = Some w)
        \<or> (\<exists>pre post. evs = pre @ post \<and> pre \<noteq> [] \<and> draggingId (run pre s) = None
              \<and> (\<not> pinchActive (run pre s) \<or> \<not> editMode (run pre s))))"
proof
  show "draggingId (snd (pinchLoop e hs a s)) = Some w"
    using pinchLoop_active [OF assms(1), of e hs a] assms(2) by simp
  show "(pinchActive (run evs s) \<and> draggingId (run evs s) = Some w)
        \<or> (\<exists>pre post. evs = pre @ post \<and> pre \<noteq> [] \<and> draggingId (run pre s) = None
              \<and> (\<not> pinchActive (run pre s) \<or> \<not> editMode (run pre s)))"
    using assms
  proof (induction evs arbitrary: s)
    case Nil
    then show ?case by simp
  next
    case (Cons ev evs)
    from step_bound [OF Cons.prems, of ev]
    consider (keep) "pinchActive (step ev s)" "draggingId (step ev s) = Some w"
      | (rel) "draggingId (step ev s) = None" "\<not> pinchActive (step ev s) \<or> \<not> editMode (step ev s)"
      by auto
    then show ?case
    proof cases
      case keep
      from Cons.IH [OF keep]
      show ?thesis
      proof
        assume "pinchActive (run evs (step ev s)) \<and> draggingId (run evs (step ev s)) = Some w"
        then show ?thesis by simp
      next
        assume "\<exists>pre post. evs = pre @ post \<and> pre \<noteq> [] \<and> draggingId (run pre (step ev s)) = None
              \<and> (\<not> pinchActive (run pre (step ev s)) \<or> \<not> editMode (run pre (step ev s)))"
        then obtain pre post where p: "evs = pre @ post" "draggingId (run pre (step ev s)) = None"
          "\<not> pinchActive (run pre (step ev s)) \<or> \<not> editMode (run pre (step ev s))" by blast
        have "ev # evs = (ev # pre) @ post \<and> ev # pre \<noteq> [] \<and> draggingId (run (ev # pre) s) = None
              \<and> (\<not> pinchActive (run (ev # pre) s) \<or> \<not> editMode (run (ev # pre) s))"
          using p by simp
        then show ?thesis by blast
      qed
    next
      case rel
      have "ev # evs = [ev] @ evs \<and> [ev] \<noteq> [] \<and> draggingId (run [ev] s) = None
              \<and> (\<not> pinchActive (run [ev] s) \<or> \<not> editMode (run [ev] s))"
        using rel by simp
      then show ?thesis by blast
    qed
  qed
qed

subsection \<open>Button cooldown\<close>

lemma afterPinch_button:
  "flashed (afterPinch e hs s) = flashed (snd (pinchLoop e hs False s))"
  "lastButtonPress (afterPinch e hs s) = lastButtonPress (snd (pinchLoop e hs False s))"
  by (simp_all add: afterPinch_def split: prod.splits sum.splits)

lemma afterPinch_fired_active:
  "flashed (snd (pinchLoop e hs False s)) \<noteq> flashed s \<Longrightarrow> pinchActive (afterPinch e hs s)"
proof -
  assume f: "flashed (snd (pinchLoop e hs False s)) \<noteq> flashed s"
  obtain r s1 where pl: "pinchLoop e hs False s = (r, s1)" by (cases "pinchLoop e hs False s")
  from pinchLoop_fire [OF f] pl have act: "pinchActive s1" by simp
  show ?thesis
  proof (cases r)
    case (Inl err)
    with pl act show ?thesis by (simp add: afterPinch_def)
  next
    case (Inr b)
    from pinchLoop_flag [OF pl [unfolded Inr]] f pl have "b" by auto
    with pl Inr act show ?thesis by (simp add: afterPinch_def)
  qed
qed

lemma onResults_button:
  "flashed (snd (onResults e hs s)) = flashed (snd (pinchLoop e hs False s))"
  "lastButtonPress (snd (onResults e hs s)) = lastButtonPress (snd (pinchLoop e hs False s))"
proof -
  show "flashed (snd (onResults e hs s)) = flashed (snd (pinchLoop e hs False s))"
  proof (cases "hs = []")
    case True
    then show ?thesis by (simp add: onResults_def)
  next
    case False
    from onResults_tail [OF False, of e s] show ?thesis by (auto simp: afterPinch_button)
  qed
  show "lastButtonPress (snd (onResults e hs s)) = lastButtonPress (snd (pinchLoop e hs False s))"
  proof (cases "hs = []")
    case True
    then show ?thesis by (simp add: onResults_def)
  next
    case False
    from onResults_tail [OF False, of e s] show ?thesis by (auto simp: afterPinch_button)
  qed
qed

lemma onResults_pinchActive:
  "hs \<noteq> [] \<Longrightarrow> pinchActive (snd (onResults e hs s)) = pinchActive (afterPinch e hs s)"
  using onResults_tail [of hs e s] by auto

lemma fires_frame:
  assumes "fires e hs s"
  shows "\<not> pinchActive s \<and> now e - lastButtonPress s > BUTTON_COOLDOWN_MS
       \<and> lastButtonPress (snd (onResults e hs s)) = now e
       \<and> pinchActive (snd (onResults e hs s))
       \<and> (\<exists>p btn. hitTestButtons e p = Some btn \<and> flashed (snd (onResults e hs s)) = flashed s @ [btn])"
proof -
  from assms have f: "flashed (snd (pinchLoop e hs False s)) \<noteq> flashed s"
    by (simp add: fires_def onResults_button)
  then have ne: "hs \<noteq> []" by auto
  from pinchLoop_fire [OF f] afterPinch_fired_active [OF f] show ?thesis
    by (simp add: onResults_button onResults_pinchActive [OF ne])
qed

lemma quiet_frame:
  "\<not> fires e hs s \<Longrightarrow> lastButtonPress (snd (onResults e hs s)) = lastButtonPress s"
  using pinchLoop_no_fire [of e hs False s] by (simp add: fires_def onResults_button)

lemma step_lastButtonPress:
  "lastButtonPress (step ev s) =
     (case ev of Frame e hs \<Rightarrow> if fires e hs s then now e else lastButtonPress s
      | Click e btn \<Rightarrow> lastButtonPress s | Tick e h \<Rightarrow> lastButtonPress s)"
  using fires_frame quiet_frame by (cases ev) (auto simp: clickButton_def)

lemma spaced_successively: "spaced l ts \<Longrightarrow> successively (\<lambda>t t'. t' - t > BUTTON_COOLDOWN_MS) ts"
proof (induction ts arbitrary: l)
  case Nil
  then show ?case by simp
next
  case (Cons t ts)
  then show ?case by (cases ts) (auto simp: successively_Cons)
qed

lemma fireTimes_spaced: "spaced (lastButtonPress s) (fireTimes evs s)"
proof (induction evs arbitrary: s)
  case Nil
  then show ?case by simp
next
  case (Cons ev evs)
  note IH = Cons.IH [of "step ev s"]
  show ?case
  proof (cases ev)
    case (Frame e hs)
    show ?thesis
    proof (cases "fires e hs s")
      case True
      with fires_frame [OF True] IH Frame show ?thesis by simp
    next
      case False
      with quiet_frame [OF False] IH Frame show ?thesis by simp
    qed
  next
    case (Click e btn)
    with IH show ?thesis by (simp add: clickButton_def)
  next
    case (Tick e h)
    with IH show ?thesis by simp
  qed
qed

lemma pinchLoop_pinching_hand:
  "h \<in> set hs \<Longrightarrow> \<forall>s0. fst (processPinch e h s0) = Inr True \<Longrightarrow>
   pinchLoop e hs a s = (Inr b, s1) \<Longrightarrow> b"
proof (induction hs arbitrary: a s)
  case Nil
  then show ?case by simp
next
  case (Cons g hs)
  obtain r s0 where pp: "processPinch e g s = (r, s0)" by (cases "processPinch e g s")
  show ?case
  proof (cases r)
    case (Inl err)
    with pp Cons.prems(3) show ?thesis by simp
  next
    case (Inr c)
    with pp Cons.prems(3) have rest: "pinchLoop e hs (if c then True else a) s0 = (Inr b, s1)" by simp
    show ?thesis
    proof (cases "g = h")
      case True
      with Cons.prems(2) pp Inr have "c" by (metis fst_conv sum.inject(2))
      with pinchLoop_flag [OF rest] show ?thesis by simp
    next
      case False
      with Cons.prems(1) have "h \<in> set hs" by simp
      from Cons.IH [OF this Cons.prems(2) rest] show ?thesis .
    qed
  qed
qed

lemma sustained_active:
  assumes "pinchActive s" and "h \<in> set hs" and "\<forall>s0. fst (processPinch e h s0) = Inr True"
  shows "pinchActive (snd (onResults e hs s))"
proof -
  from assms(2) have ne: "hs \<noteq> []" by auto
  obtain r s1 where pl: "pinchLoop e hs False s = (r, s1)" by (cases "pinchLoop e hs False s")
  have act: "pinchActive s1" using pinchLoop_active [OF assms(1), of e hs False] pl by simp
  have "pinchActive (afterPinch e hs s)"
  proof (cases r)
    case (Inl err)
    with pl act show ?thesis by (simp add: afterPinch_def)
  next
    case (Inr b)
    with pl pinchLoop_pinching_hand [OF assms(2,3)] have "b" by blast
    with pl Inr act show ?thesis by (simp add: afterPinch_def)
  qed
  then show ?thesis by (simp add: onResults_pinchActive [OF ne])
qed

lemma sustained_quiet:
  "pinchActive s \<Longrightarrow>
   \<forall>ev\<in>set evs. \<exists>e hs. ev = Frame e hs \<and> (\<exists>h\<in>set hs. \<forall>s0. fst (processPinch e h s0) = Inr True) \<Longrightarrow>
   fireTimes evs s = []"
proof (induction evs arbitrary: s)
  case Nil
  then show ?case by simp
next
  case (Cons ev evs)
  from Cons.prems(2) obtain e hs h where ev: "ev = Frame e hs" and h: "h \<in> set hs"
    and p: "\<forall>s0. fst (processPinch e h s0) = Inr True" by auto
  have nf: "\<not> fires e hs s" using fires_frame [of e hs s] Cons.prems(1) by blast
  have act: "pinchActive (step ev s)" using sustained_active [OF Cons.prems(1) h p] ev by simp
  from Cons.IH [OF act] Cons.prems(2) nf ev show ?case by simp
qed

lemma sustained_once:
  "\<forall>ev\<in>set evs. \<exists>e hs. ev = Frame e hs \<and> (\<exists>h\<in>set hs. \<forall>s0. fst (processPinch e h s0) = Inr True) \<Longrightarrow>
   length (fireTimes evs s) \<le> 1"
proof (induction evs arbitrary: s)
  case Nil
  then show ?case by simp
next
  case (Cons ev evs)
  from Cons.prems obtain e hs where ev: "ev = Frame e hs" by auto
  from Cons.prems have rest: "\<forall>ev\<in>set evs. \<exists>e hs. ev = Frame e hs \<and>
      (\<exists>h\<in>set hs. \<forall>s0. fst (processPinch e h s0) = Inr True)" by simp
  show ?case
  proof (cases "fires e hs s")
    case True
    then have "pinchActive (step ev s)" using fires_frame [OF True] ev by simp
    from sustained_quiet [OF this rest] True ev show ?thesis by simp
  next
    case False
    with Cons.IH [OF rest, of "step ev s"] ev show ?thesis by simp
  qed
qed

lemma lm_buttonHand:
  "lm buttonHand 4 = Some (pt (95/100) (3/100))" "lm buttonHand 8 = Some (pt (95/100) (3/100))"
  "lm buttonHand 0 = Some (pt 0 0)" "lm buttonHand 9 = Some (pt (1/10) 0)"
  by (simp_all add: lm_def buttonHand_def)

lemma buttonHand_pinches: "fst (processPinch e buttonHand s0) = Inr True"
  using processPinch_result [OF lm_buttonHand, of e s0]
  by (simp add: pt_def pinchThreshold_def)

lemma demo_fires: "fires demoEnv [buttonHand] state0"
proof -
  have "flashed (snd (processPinch demoEnv buttonHand state0)) \<noteq> flashed state0"
    apply (simp add: processPinch_def distance_def lm_buttonHand pt_def pinchThreshold_def Let_def)
    apply (simp add: state0_def pinchStart_def Let_def hitTestButtons_def demoEnv_def demoButtons_def buttonHit_def
       inside_def expanded_def box_def BUTTON_HIT_EXPAND_def BUTTON_COOLDOWN_MS_def)
    done
  then show ?thesis
    by (auto simp: fires_def onResults_button split: prod.splits sum.splits)
qed

subsection \<open>Swipe mode switches\<close>

lemma swipeHand_switch:
  "mode (snd (swipeHand e h s)) \<noteq> mode s \<longleftrightarrow>
     (\<exists>tip startX. lm h 8 = Some tip \<and> swipeStartX s = Some startX
        \<and> \<not> pinchActive s
        \<and> now e - lastSwipeTime s > SWIPE_COOLDOWN_MS
        \<and> now e - swipeStartTime s \<le> SWIPE_TIME_MAX
        \<and> ((1 - xc tip) - startX > SWIPE_THRESHOLD \<and> mode s = Mirror
           \<or> (1 - xc tip) - startX < - SWIPE_THRESHOLD \<and> mode s = TryOn))"
  by (cases "mode s") (auto simp: swipeHand_def Let_def SWIPE_THRESHOLD_def split: option.splits)

lemma swipeHand_stamp:
  "mode (snd (swipeHand e h s)) \<noteq> mode s \<Longrightarrow> lastSwipeTime (snd (swipeHand e h s)) = now e"
  by (auto simp: swipeHand_def Let_def split: option.splits if_splits)

lemma afterPinch_mode [simp]: "mode (afterPinch e hs s) = mode s"
proof -
  obtain r s1 where pl: "pinchLoop e hs False s = (r, s1)" by (cases "pinchLoop e hs False s")
  have "mode s1 = mode s" using pinchLoop_mode [of e hs False s] pl by simp
  with pl show ?thesis by (cases r) (simp_all add: afterPinch_def)
qed

lemma onResults_switch:
  assumes "mode (snd (onResults e hs s)) \<noteq> mode s"
  shows "\<not> pinchActive (snd (onResults e hs s))"
proof (cases "hs = []")
  case True
  then show ?thesis by (simp add: onResults_def)
next
  case False
  let ?s2 = "afterPinch e hs s"
  have "mode (snd (detectSwipes e hs ?s2)) \<noteq> mode ?s2"
    using onResults_tail [OF False, of e s] assms by auto
  then have "\<not> pinchActive ?s2" using detectSwipes_active [of ?s2 e hs] by auto
  then show ?thesis by (simp add: onResults_pinchActive [OF False])
qed

subsection \<open>The drag binding, an instance\<close>

lemma closedHand_pinches: "fst (processPinch e closedHand s0) = Inr True"
  using processPinch_result [OF lm_closedHand, of e s0]
  by (simp add: pt_def pinchThreshold_def)

text \<open>
  A drag of \<open>clock\<close> and one more frame with a pinching hand: the session is still
  active and still bound to \<open>clock\<close>.
\<close>

theorem drag_binding_stable_witness:
  "pinchActive dragState \<and> draggingId dragState = Some ''clock''
   \<and> draggingId (snd (pinchLoop demoEnv [closedHand, closedHand] False dragState)) = Some ''clock''
   \<and> pinchActive (run [Frame demoEnv [closedHand]] dragState)
   \<and> draggingId (run [Frame demoEnv [closedHand]] dragState) = Some ''clock''"
proof -
  have a: "pinchActive dragState" and b: "draggingId dragState = Some ''clock''"
    by (simp_all add: dragState_def)
  have act: "pinchActive (snd (onResults demoEnv [closedHand] dragState))"
    by (rule sustained_active [OF a, of closedHand]) (simp_all add: closedHand_pinches)
  from drag_binding_stable [OF a b, of demoEnv "[closedHand, closedHand]" False
      "[Frame demoEnv [closedHand]]"]
  have loop: "draggingId (snd (pinchLoop demoEnv [closedHand, closedHand] False dragState)) = Some ''clock''"
    and alt: "(pinchActive (run [Frame demoEnv [closedHand]] dragState)
                 \<and> draggingId (run [Frame demoEnv [closedHand]] dragState) = Some ''clock'')
            \<or> (\<exists>pre post. [Frame demoEnv [closedHand]] = pre @ post \<and> pre \<noteq> []
                  \<and> draggingId (run pre dragState) = None
                  \<and> (\<not> pinchActive (run pre dragState) \<or> \<not> editMode (run pre dragState)))"
    by blast+
  have "\<not> (\<exists>pre post. [Frame demoEnv [closedHand]] = pre @ post \<and> pre \<noteq> []
                  \<and> draggingId (run pre dragState) = None
                  \<and> (\<not> pinchActive (run pre dragState) \<or> \<not> editMode (run pre dragState)))"
  proof
    assume "\<exists>pre post. [Frame demoEnv [closedHand]] = pre @ post \<and> pre \<noteq> []
                  \<and> draggingId (run pre dragState) = None
                  \<and> (\<not> pinchActive (run pre dragState) \<or> \<not> editMode (run pre dragState))"
    then obtain pre post where p: "[Frame demoEnv [closedHand]] = pre @ post" "pre \<noteq> []"
      "draggingId (run pre dragState) = None" by blast
    from p(1,2) have "pre = [Frame demoEnv [closedHand]]"
      by (cases pre) simp_all
    with p(3) have "draggingId (snd (onResults demoEnv [closedHand] dragState)) = None" by simp
    with onResults_bound [OF a b, of demoEnv "[closedHand]"] act show False by simp
  qed
  with alt have "pinchActive (run [Frame demoEnv [closedHand]] dragState)
                 \<and> draggingId (run [Frame demoEnv [closedHand]] dragState) = Some ''clock''" by blast
  with a b loop show ?thesis by blast
qed

subsection \<open>Button firing\<close>

text \<open>The point that is hit-tested when a hand fires a button: its index tip in window coordinates.\<close>

lemma processPinch_fire_point:
  assumes "flashed (snd (processPinch e h s)) \<noteq> flashed s"
  shows "\<exists>tip btn. lm h 8 = Some tip \<and> fst (processPinch e h s) = Inr True
      \<and> hitTestButtons e \<lparr> xc = (if mode s = TryOn then xc tip else 1 - xc tip) * innerWidth e,
                             yc = yc tip * innerHeight e \<rparr> = Some btn
      \<and> flashed (snd (processPinch e h s)) = flashed s @ [btn]"
proof -
  from processPinch_fire [OF assms] have idle: "\<not> pinchActive s" by simp
  from assms have changed: "snd (processPinch e h s) \<noteq> s" by auto
  obtain pinchStrength where st: "distance (lm h 4) (lm h 8) = Inr pinchStrength"
    using changed by (cases "distance (lm h 4) (lm h 8)") (simp_all add: processPinch_def)
  obtain handSpan where sp: "distance (lm h 0) (lm h 9) = Inr handSpan"
    using changed st by (cases "distance (lm h 0) (lm h 9)") (simp_all add: processPinch_def)
  have pinching: "pinchStrength < pinchThreshold handSpan"
  proof (rule ccontr)
    assume "\<not> pinchStrength < pinchThreshold handSpan"
    with st sp have "processPinch e h s = (Inr False, s)" by (simp add: processPinch_def Let_def)
    with changed show False by simp
  qed
  obtain tip where tip: "lm h 8 = Some tip"
    using st by (cases "lm h 8") (simp_all add: distance_def split: option.splits)
  define mx where "mx = (if mode s = TryOn then xc tip else 1 - xc tip)"
  define pm where "pm = \<lparr> xc = r_left (mirrorRect e) + mx * r_width (mirrorRect e),
                          yc = r_top (mirrorRect e) + yc tip * r_height (mirrorRect e) \<rparr>"
  define pu where "pu = \<lparr> xc = mx * innerWidth e, yc = yc tip * innerHeight e \<rparr>"
  obtain fired s1 where ps: "pinchStart e pu pm s = (fired, s1)"
    by (cases "pinchStart e pu pm s")
  have pp: "processPinch e h s =
        (if fired then (Inr True, s1)
         else (Inr True,
               if pinchMode s1 = PDrag \<and> truthy (draggingId s1) \<and> editMode s1 \<and> mode s1 = Mirror
               then setWidgetPosition (the (draggingId s1)) (xc pm) (yc pm) s1 else s1))"
    using st sp pinching idle ps tip
    by (simp add: processPinch_def Let_def mx_def [symmetric] pm_def [symmetric] pu_def [symmetric])
  have fired: fired
  proof (rule ccontr)
    assume nf: "\<not> fired"
    with pinchStart_quiet [of e pu pm s] ps have "flashed s1 = flashed s" by simp
    with nf pp assms show False by (simp split: if_splits)
  qed
  with pinchStart_fired [of e pu pm s] ps obtain btn where btn: "hitTestButtons e pu = Some btn"
    by auto
  from fired pinchStart_button [of e pu pm s] ps btn have "flashed s1 = flashed s @ [btn]" by simp
  with fired pp tip btn show ?thesis unfolding pu_def mx_def by simp
qed

lemma pinchLoop_fire_point:
  "flashed (snd (pinchLoop e hs a s)) \<noteq> flashed s \<Longrightarrow>
     \<exists>h\<in>set hs. \<exists>tip btn. lm h 8 = Some tip \<and> fst (processPinch e h s) = Inr True
      \<and> hitTestButtons e \<lparr> xc = (if mode s = TryOn then xc tip else 1 - xc tip) * innerWidth e,
                             yc = yc tip * innerHeight e \<rparr> = Some btn
      \<and> flashed (snd (pinchLoop e hs a s)) = flashed s @ [btn]"
proof (induction hs arbitrary: a s)
  case Nil
  then show ?case by simp
next
  case (Cons h hs)
  obtain r s0 where pp: "processPinch e h s = (r, s0)" by (cases "processPinch e h s")
  have s0: "s0 = snd (processPinch e h s)" and r: "r = fst (processPinch e h s)" using pp by simp_all
  show ?case
  proof (cases "r = Inr True")
    case True
    then have act: "pinchActive s0" using processPinch_pinching [of e h s] r s0 by simp
    have loop: "snd (pinchLoop e (h # hs) a s) = snd (pinchLoop e hs True s0)"
      using pp True by simp
    note keep = pinchLoop_active [OF act, of e hs True]
    from Cons.prems have "flashed (snd (processPinch e h s)) \<noteq> flashed s"
      unfolding loop using keep s0 by simp
    from processPinch_fire_point [OF this] show ?thesis
      unfolding loop using keep s0 by auto
  next
    case False
    then have same: "s0 = s" using processPinch_not_pinching [of e h s] r s0 by simp
    show ?thesis
    proof (cases r)
      case (Inl err)
      with pp same Cons.prems show ?thesis by simp
    next
      case (Inr c)
      with False have "\<not> c" by simp
      with pp Inr same have loop: "pinchLoop e (h # hs) a s = pinchLoop e hs a s" by simp
      from Cons.prems Cons.IH [of a s] show ?thesis unfolding loop by auto
    qed
  qed
qed

lemma fires_frame_point:
  assumes "fires e hs s"
  shows "\<exists>h\<in>set hs. \<exists>tip btn. lm h 8 = Some tip \<and> fst (processPinch e h s) = Inr True
      \<and> hitTestButtons e \<lparr> xc = (if mode s = TryOn then xc tip else 1 - xc tip) * innerWidth e,
                             yc = yc tip * innerHeight e \<rparr> = Some btn
      \<and> flashed (snd (onResults e hs s)) = flashed s @ [btn]"
proof -
  from assms have f: "flashed (snd (pinchLoop e hs False s)) \<noteq> flashed s"
    by (simp add: fires_def onResults_button)
  from pinchLoop_fire_point [OF f] show ?thesis by (simp add: onResults_button)
qed



subsection \<open>Release and the widget offsets\<close>

lemma widgetState_kept [simp]:
  "widgetState (setEditMode on s) = widgetState s"
  "widgetState (hidePhotoPreview s) = widgetState s"
  "widgetState (clearInterval t s) = widgetState s"
  "widgetState (triggerShutter s) = widgetState s"
  "widgetState (retakePhoto s) = widgetState s"
  "widgetState (savePhoto s) = widgetState s"
  "widgetState (setMode next s) = widgetState s"
  by (simp_all add: setEditMode_def hidePhotoPreview_def clearInterval_def triggerShutter_def
      retakePhoto_def savePhoto_def setMode_def Let_def split: option.splits)

lemma swipeHand_widgetState [simp]: "widgetState (snd (swipeHand e h s)) = widgetState s"
  by (simp add: swipeHand_def Let_def split: option.splits)

lemma detectSwipes_widgetState [simp]: "widgetState (snd (detectSwipes e hs s)) = widgetState s"
  by (induction hs arbitrary: s)
     (simp_all add: detectSwipes_snd del: detectSwipes.simps(2) split: sum.splits)

lemma thumbLoop_widgetState [simp]: "widgetState (snd (thumbLoop e hs s)) = widgetState s"
  by (induction hs) (simp_all split: sum.splits)

lemma detectThumbGestures_widgetState [simp]:
  "widgetState (snd (detectThumbGestures e hs s)) = widgetState s"
  by (simp add: detectThumbGestures_def)

lemma onResults_widgetState:
  "hs \<noteq> [] \<Longrightarrow> widgetState (snd (onResults e hs s)) = widgetState (afterPinch e hs s)"
  using onResults_tail [of hs e s] by auto

lemma pinchLoop_none_pinching:
  "\<forall>h\<in>set hs. fst (processPinch e h s) = Inr False \<Longrightarrow> pinchLoop e hs a s = (Inr a, s)"
proof (induction hs)
  case Nil
  then show ?case by simp
next
  case (Cons h hs)
  then have r: "fst (processPinch e h s) = Inr False" by simp
  then have "snd (processPinch e h s) = s" by (simp add: processPinch_not_pinching)
  with r have "processPinch e h s = (Inr False, s)" by (metis prod.collapse)
  with Cons show ?case by simp
qed

lemma afterPinch_release:
  "\<forall>h\<in>set hs. fst (processPinch e h s) = Inr False \<Longrightarrow> pinchActive s \<Longrightarrow>
   afterPinch e hs s = release e s"
  by (simp add: afterPinch_def pinchLoop_none_pinching)

lemma release_widgetState:
  "draggingId s = Some i \<Longrightarrow> i \<noteq> [] \<Longrightarrow> editMode s \<Longrightarrow>
   widgetState (release e s) = widgetState (snapWidget e i s)"
  by (simp add: release_def truthy_def Let_def)

text \<open>A frame without hands ends a drag and leaves the offset off the grid.\<close>

theorem release_always_snaps_counterexample:
  "pinchActive offState \<and> pinchMode offState = PDrag \<and> draggingId offState = Some ''clock''
   \<and> editMode offState
   \<and> \<not> pinchActive (snd (onResults demoEnv [] offState))
   \<and> draggingId (snd (onResults demoEnv [] offState)) = None
   \<and> xc (offset (the (widgetState (snd (onResults demoEnv [] offState)) ''clock''))) = 5
   \<and> SNAP_SIZE * 0 < (5::real) \<and> (5::real) < SNAP_SIZE * 1"
  by (simp add: onResults_def offState_def dragState_def state0_def clockW_def pt_def SNAP_SIZE_def)

text \<open>
  C2, as the code has it. When a frame that has hands, none of them pinching, ends a
  session that is bound to a widget with an entry while edit mode is on, the frame runs the
  snap: the shift on each axis is at most the tolerance in magnitude, it is the delta of a
  candidate (left, centre, right, resp. top, centre, bottom, against every other widget)
  within the tolerance whose distance is smallest among all candidates, or 0 when none is
  within the tolerance; the new offset is the old one plus the shift rounded to a nearest
  multiple of the grid unit, so a multiple of it.
\<close>

theorem release_snaps_to_grid:
  assumes "hs \<noteq> []" and "\<forall>h\<in>set hs. fst (processPinch e h s) = Inr False"
    and "pinchActive s" and "draggingId s = Some i" and "i \<noteq> []" and "editMode s"
    and "widgetState s i = Some w"
    and "selfRect = getRect (releaseRect e (el w))"
    and "cx = concat (map (candidatesX selfRect) (otherRects e i))"
    and "cy = concat (map (candidatesY selfRect) (otherRects e i))"
    and "w' = the (widgetState (snd (onResults e hs s)) i)"
  shows "\<not> pinchActive (snd (onResults e hs s)) \<and> draggingId (snd (onResults e hs s)) = None
    \<and> (\<exists>dx dy.
      \<bar>dx\<bar> \<le> ALIGN_THRESHOLD \<and> \<bar>dy\<bar> \<le> ALIGN_THRESHOLD
    \<and> (if \<exists>c\<in>set cx. fst c \<le> ALIGN_THRESHOLD
       then \<exists>c\<in>set cx. snd c = dx \<and> fst c \<le> ALIGN_THRESHOLD \<and> (\<forall>c'\<in>set cx. fst c \<le> fst c')
       else dx = 0)
    \<and> (if \<exists>c\<in>set cy. fst c \<le> ALIGN_THRESHOLD
       then \<exists>c\<in>set cy. snd c = dy \<and> fst c \<le> ALIGN_THRESHOLD \<and> (\<forall>c'\<in>set cy. fst c \<le> fst c')
       else dy = 0)
    \<and> xc (offset w') = snap (xc (offset w) + dx) \<and> yc (offset w') = snap (yc (offset w) + dy)
    \<and> (\<forall>k::int. \<bar>xc (offset w') - (xc (offset w) + dx)\<bar> \<le> \<bar>SNAP_SIZE * real_of_int k - (xc (offset w) + dx)\<bar>)
    \<and> (\<forall>k::int. \<bar>yc (offset w') - (yc (offset w) + dy)\<bar> \<le> \<bar>SNAP_SIZE * real_of_int k - (yc (offset w) + dy)\<bar>)
    \<and> (\<exists>kx ky::int. xc (offset w') = SNAP_SIZE * real_of_int kx \<and> yc (offset w') = SNAP_SIZE * real_of_int ky))"
proof -
  have ws: "widgetState (snd (onResults e hs s)) = widgetState (snapWidget e i s)"
    using assms(1-6)
    by (simp add: onResults_widgetState afterPinch_release release_widgetState)
  have w': "w' = the (widgetState (snapWidget e i s) i)"
    using assms(11) ws by simp
  have ap: "afterPinch e hs s = release e s"
    using assms(2,3) by (rule afterPinch_release)
  have "\<not> pinchActive (afterPinch e hs s)" and d: "draggingId (afterPinch e hs s) = None"
    unfolding ap by simp_all
  then have "\<not> pinchActive (snd (onResults e hs s))"
    using onResults_pinchActive [OF assms(1), of e s] by simp
  moreover have "draggingId (snd (onResults e hs s)) = None"
    using onResults_tail [OF assms(1), of e s] d detectSwipes_unbound [OF d, of e hs] by auto
  ultimately show ?thesis
    using snapWidget_aligns [OF assms(7,8,9,10) w'] by blast
qed

lemma openHand_open: "fst (processPinch e openHand s) = Inr False"
  using processPinch_result [OF lm_pinchHand(1) [of "0.08"] lm_pinchHand(2) [of "0.08"]
      lm_pinchHand(3) [of "0.08"] lm_pinchHand(4) [of "0.08"], of e s]
  by (simp add: openHand_def pt_def pinchThreshold_def)

text \<open>
  The drag of \<open>clock\<close> released by a frame with one open hand: the offset becomes
  (96, 96).
\<close>

theorem release_snaps_to_grid_witness:
  "fst (processPinch demoEnv openHand dragState) = Inr False
   \<and> pinchActive dragState \<and> draggingId dragState = Some ''clock'' \<and> editMode dragState
   \<and> widgetState dragState ''clock'' = Some clockW
   \<and> \<not> pinchActive (snd (onResults demoEnv [openHand] dragState))
   \<and> offset (the (widgetState (snd (onResults demoEnv [openHand] dragState)) ''clock'')) = pt 96 96"
proof -
  have a: "[openHand] \<noteq> []" by simp
  have b: "\<forall>h\<in>set [openHand]. fst (processPinch demoEnv h dragState) = Inr False"
    by (simp add: openHand_open)
  have c: "pinchActive dragState" "draggingId dragState = Some ''clock''" "''clock'' \<noteq> []"
    "editMode dragState" "widgetState dragState ''clock'' = Some clockW"
    by (simp_all add: dragState_def)
  have ws: "widgetState (snd (onResults demoEnv [openHand] dragState))
              = widgetState (snapWidget demoEnv ''clock'' dragState)"
    using b c by (simp add: onResults_widgetState afterPinch_release release_widgetState)
  from release_snaps_to_grid [OF a b c refl refl refl refl]
  have "\<not> pinchActive (snd (onResults demoEnv [openHand] dragState))"
    by blast
  then show ?thesis using c openHand_open [of demoEnv dragState] by (simp add: ws demo_snap)
qed

subsection \<open>Mode switches of a frame\<close>

text \<open>What the pinch stage leaves alone: whatever \<open>pinchStart\<close> and \<open>setWidgetPosition\<close> do.\<close>

lemma processPinch_keeps:
  assumes "\<And>pu pm. f (snd (pinchStart e pu pm s)) = f s"
    and "\<And>i x y t. f (setWidgetPosition i x y t) = f t"
  shows "f (snd (processPinch e h s)) = f s"
  using processPinch_shape [of e h s] assms by (elim disjE conjE exE) simp_all

lemma pinchLoop_keeps:
  assumes "\<And>pu pm t. f (snd (pinchStart e pu pm t)) = f t"
    and "\<And>i x y t. f (setWidgetPosition i x y t) = f t"
  shows "f (snd (pinchLoop e hs a s)) = f s"
proof (induction hs arbitrary: a s)
  case Nil
  then show ?case by simp
next
  case (Cons h hs)
  obtain r s1 where pp: "processPinch e h s = (r, s1)" by (cases "processPinch e h s")
  have "f s1 = f s" using processPinch_keeps [of f e s h] assms pp by simp
  with pp Cons.IH show ?case by (cases r) simp_all
qed

lemma snapWidget_only: "snapWidget e i s = s\<lparr> widgetState := widgetState (snapWidget e i s) \<rparr>"
  by (simp add: snapWidget_def Let_def split: option.splits)

lemma release_only:
  "release e s = s\<lparr> widgetState := widgetState (release e s), pinchActive := False,
                     draggingId := None, pinchMode := PNone \<rparr>"
proof (cases "truthy (draggingId s) \<and> editMode s")
  case True
  then show ?thesis
    by (simp add: release_def Let_def) (subst snapWidget_only, simp)
next
  case False
  then show ?thesis by (auto simp: release_def Let_def)
qed

lemma pinchStart_lastSwipeTime [simp]:
  "lastSwipeTime (snd (pinchStart e pu pm s)) = lastSwipeTime s"
  by (simp add: pinchStart_def Let_def flashButton_def runAction_def resetPanels_def initWidgetState_def
      setEditMode_def triggerShutter_def hidePhotoPreview_def)

lemma afterPinch_lastSwipeTime [simp]: "lastSwipeTime (afterPinch e hs s) = lastSwipeTime s"
proof -
  have loop: "lastSwipeTime (snd (pinchLoop e hs False s)) = lastSwipeTime s"
    by (rule pinchLoop_keeps) (simp_all add: setWidgetPosition_def split: option.splits)
  have rel: "\<And>t. lastSwipeTime (release e t) = lastSwipeTime t"
    by (subst release_only) simp
  show ?thesis
    using loop by (auto simp: afterPinch_def rel split: prod.splits sum.splits)
qed

lemma swipeHand_fault: "fst (swipeHand e h s) = Inl err \<Longrightarrow> snd (swipeHand e h s) = s"
  by (auto simp: swipeHand_def Let_def split: option.splits)

lemma swipeHand_no_switch:
  "mode (snd (swipeHand e h s)) = mode s \<Longrightarrow> lastSwipeTime (snd (swipeHand e h s)) = lastSwipeTime s"
  by (cases "mode s") (auto simp: swipeHand_def Let_def split: option.splits if_splits)

text \<open>The first hand of \<open>detectSwipes\<close> at which the mode changes.\<close>

lemma detectSwipes_first_switch:
  "mode (snd (detectSwipes e hs s)) \<noteq> mode s \<Longrightarrow>
   \<exists>pre h post. hs = pre @ h # post
      \<and> mode (snd (detectSwipes e pre s)) = mode s
      \<and> lastSwipeTime (snd (detectSwipes e pre s)) = lastSwipeTime s
      \<and> mode (snd (swipeHand e h (snd (detectSwipes e pre s)))) \<noteq> mode s"
proof (induction hs arbitrary: s)
  case Nil
  then show ?case by simp
next
  case (Cons h hs)
  show ?case
  proof (cases "mode (snd (swipeHand e h s)) = mode s")
    case False
    have "h # hs = [] @ h # hs \<and> mode (snd (detectSwipes e [] s)) = mode s
      \<and> lastSwipeTime (snd (detectSwipes e [] s)) = lastSwipeTime s
      \<and> mode (snd (swipeHand e h (snd (detectSwipes e [] s)))) \<noteq> mode s"
      using False by simp
    then show ?thesis by blast
  next
    case True
    let ?s1 = "snd (swipeHand e h s)"
    have lst: "lastSwipeTime ?s1 = lastSwipeTime s" using True by (rule swipeHand_no_switch)
    show ?thesis
    proof (cases "fst (swipeHand e h s)")
      case (Inl err)
      then have "snd (detectSwipes e (h # hs) s) = ?s1"
        by (simp add: detectSwipes_snd del: detectSwipes.simps(2))
      with True Cons.prems show ?thesis by simp
    next
      case (Inr u)
      then have step: "\<And>xs. snd (detectSwipes e (h # xs) s) = snd (detectSwipes e xs ?s1)"
        by (simp add: detectSwipes_snd del: detectSwipes.simps(2))
      from Cons.prems have "mode (snd (detectSwipes e hs ?s1)) \<noteq> mode ?s1"
        using True step by simp
      from Cons.IH [OF this] obtain pre g post where p: "hs = pre @ g # post"
        "mode (snd (detectSwipes e pre ?s1)) = mode ?s1"
        "lastSwipeTime (snd (detectSwipes e pre ?s1)) = lastSwipeTime ?s1"
        "mode (snd (swipeHand e g (snd (detectSwipes e pre ?s1)))) \<noteq> mode ?s1"
        by blast
      have "h # hs = (h # pre) @ g # post
        \<and> mode (snd (detectSwipes e (h # pre) s)) = mode s
        \<and> lastSwipeTime (snd (detectSwipes e (h # pre) s)) = lastSwipeTime s
        \<and> mode (snd (swipeHand e g (snd (detectSwipes e (h # pre) s)))) \<noteq> mode s"
        using p True lst by (simp only: step) simp
      then show ?thesis by blast
    qed
  qed
qed


lemma frame_switch:
  assumes "mode (snd (onResults e hs s)) \<noteq> mode s"
  shows "\<not> pinchActive (afterPinch e hs s) \<and> now e - lastSwipeTime s > SWIPE_COOLDOWN_MS
     \<and> (\<exists>pre h post tip startX. hs = pre @ h # post \<and> lm h 8 = Some tip
          \<and> swipeStartX (snd (detectSwipes e pre (afterPinch e hs s))) = Some startX
          \<and> now e - swipeStartTime (snd (detectSwipes e pre (afterPinch e hs s))) \<le> SWIPE_TIME_MAX
          \<and> ((1 - xc tip) - startX > SWIPE_THRESHOLD \<and> mode s = Mirror
             \<or> (1 - xc tip) - startX < - SWIPE_THRESHOLD \<and> mode s = TryOn))"
proof -
  have ne: "hs \<noteq> []" using assms by (auto simp: onResults_def)
  let ?s2 = "afterPinch e hs s"
  have sw: "mode (snd (detectSwipes e hs ?s2)) \<noteq> mode ?s2"
    using onResults_tail [OF ne, of e s] assms by auto
  from detectSwipes_first_switch [OF sw] obtain pre h post where p: "hs = pre @ h # post"
    "mode (snd (detectSwipes e pre ?s2)) = mode ?s2"
    "lastSwipeTime (snd (detectSwipes e pre ?s2)) = lastSwipeTime ?s2"
    "mode (snd (swipeHand e h (snd (detectSwipes e pre ?s2)))) \<noteq> mode ?s2"
    by blast
  let ?s3 = "snd (detectSwipes e pre ?s2)"
  from p(2,4) have "mode (snd (swipeHand e h ?s3)) \<noteq> mode ?s3" by simp
  with swipeHand_switch [of e h ?s3] obtain tip startX where c: "lm h 8 = Some tip"
    "swipeStartX ?s3 = Some startX" "\<not> pinchActive ?s3"
    "now e - lastSwipeTime ?s3 > SWIPE_COOLDOWN_MS" "now e - swipeStartTime ?s3 \<le> SWIPE_TIME_MAX"
    "(1 - xc tip) - startX > SWIPE_THRESHOLD \<and> mode ?s3 = Mirror
       \<or> (1 - xc tip) - startX < - SWIPE_THRESHOLD \<and> mode ?s3 = TryOn"
    by blast
  from c(3) have idle: "\<not> pinchActive ?s2" by simp
  from c(4) p(3) have cool: "now e - lastSwipeTime s > SWIPE_COOLDOWN_MS" by simp
  from c(6) p(2) have dir: "(1 - xc tip) - startX > SWIPE_THRESHOLD \<and> mode s = Mirror
       \<or> (1 - xc tip) - startX < - SWIPE_THRESHOLD \<and> mode s = TryOn" by simp
  from idle cool p(1) c(1,2,5) dir show ?thesis by blast
qed


lemma pointingHand_lm:
  "lm (pointingHand x) 4 = Some (pt x (9/10))" "lm (pointingHand x) 8 = Some (pt x (1/2))"
  "lm (pointingHand x) 0 = Some (pt x (1/2))" "lm (pointingHand x) 9 = Some (pt x (1/2))"
  by (simp_all add: lm_def pointingHand_def)

lemma pointingHand_open: "fst (processPinch e (pointingHand x) s) = Inr False"
  using processPinch_result [OF pointingHand_lm(1) [of x] pointingHand_lm(2) [of x]
      pointingHand_lm(3) [of x] pointingHand_lm(4) [of x], of e s]
  by (simp add: pt_def pinchThreshold_def)

lemma onResults_no_pinch:
  "hs \<noteq> [] \<Longrightarrow> \<forall>h\<in>set hs. fst (processPinch e h s) = Inr False \<Longrightarrow>
   onResults e hs s =
     (let s2 = (if pinchActive s then release e s else s)
      in (case detectSwipes e hs s2 of
            (Inl err, s3) \<Rightarrow> (Inl err, s3)
          | (Inr u, s3) \<Rightarrow>
              if mode s3 = TryOn \<and> photoReady s3 \<and> \<not> isCountingDown s3
              then detectThumbGestures e hs s3
              else (Inr (), s3)))"
  by (simp add: onResults_def pinchLoop_none_pinching)




subsection \<open>Thumb gestures of a frame\<close>

text \<open>
  The photo state that guards the thumb gestures: the pinch stage touches it only by
  firing the shutter button, the swipe stage only by switching the mode.
\<close>

lemma pinchStart_photo:
  "\<not> (fst (pinchStart e pu pm s) \<and> action (the (hitTestButtons e pu)) = ''shutter'') \<Longrightarrow>
     photoReady (snd (pinchStart e pu pm s)) = photoReady s
     \<and> isCountingDown (snd (pinchStart e pu pm s)) = isCountingDown s
     \<and> lastGestureTime (snd (pinchStart e pu pm s)) = lastGestureTime s"
  by (auto simp: pinchStart_def Let_def flashButton_def runAction_def resetPanels_def initWidgetState_def
      setEditMode_def)

lemma setWidgetPosition_photo [simp]:
  "photoReady (setWidgetPosition i x y s) = photoReady s"
  "isCountingDown (setWidgetPosition i x y s) = isCountingDown s"
  "lastGestureTime (setWidgetPosition i x y s) = lastGestureTime s"
  by (simp_all add: setWidgetPosition_def split: option.splits)

lemma processPinch_photo:
  assumes "flashed (snd (processPinch e h s)) = flashed s
           \<or> action (last (flashed (snd (processPinch e h s)))) \<noteq> ''shutter''"
  shows "photoReady (snd (processPinch e h s)) = photoReady s
     \<and> isCountingDown (snd (processPinch e h s)) = isCountingDown s
     \<and> lastGestureTime (snd (processPinch e h s)) = lastGestureTime s"
proof -
  let ?s' = "snd (processPinch e h s)"
  let ?T = "photoReady ?s' = photoReady s \<and> isCountingDown ?s' = isCountingDown s
     \<and> lastGestureTime ?s' = lastGestureTime s"
  have a: "?s' = s \<Longrightarrow> ?T" by simp
  have b: "\<And>i x y. ?s' = setWidgetPosition i x y s \<Longrightarrow> ?T" by simp
  have c: "\<And>pu pm. fst (pinchStart e pu pm s) \<Longrightarrow> ?s' = snd (pinchStart e pu pm s) \<Longrightarrow> ?T"
  proof -
    fix pu pm assume f: "fst (pinchStart e pu pm s)" and eq: "?s' = snd (pinchStart e pu pm s)"
    from pinchStart_button [OF f] eq
    have fl: "flashed ?s' = flashed s @ [the (hitTestButtons e pu)]" by simp
    with assms have "action (the (hitTestButtons e pu)) \<noteq> ''shutter''" by auto
    with pinchStart_photo [of e pu pm s] eq show ?T by simp
  qed
  have d: "\<And>pu pm. \<not> fst (pinchStart e pu pm s) \<Longrightarrow>
             ?s' = snd (pinchStart e pu pm s)
             \<or> (\<exists>i x y. ?s' = setWidgetPosition i x y (snd (pinchStart e pu pm s)))
             \<Longrightarrow> ?T"
    using pinchStart_photo by fastforce
  from processPinch_shape [of e h s] a b c d show ?thesis by blast
qed

lemma processPinch_active_photo:
  assumes "pinchActive s"
  shows "photoReady (snd (processPinch e h s)) = photoReady s
     \<and> isCountingDown (snd (processPinch e h s)) = isCountingDown s
     \<and> lastGestureTime (snd (processPinch e h s)) = lastGestureTime s"
  using processPinch_active(7) [OF assms, of e h] processPinch_photo [of e h s] by simp

lemma pinchLoop_active_photo:
  assumes "pinchActive s"
  shows "photoReady (snd (pinchLoop e hs a s)) = photoReady s
     \<and> isCountingDown (snd (pinchLoop e hs a s)) = isCountingDown s
     \<and> lastGestureTime (snd (pinchLoop e hs a s)) = lastGestureTime s"
  using assms
proof (induction hs arbitrary: a s)
  case Nil
  then show ?case by simp
next
  case (Cons h hs)
  obtain r s1 where pp: "processPinch e h s = (r, s1)" by (cases "processPinch e h s")
  have s1: "s1 = snd (processPinch e h s)" using pp by simp
  have act: "pinchActive s1" using processPinch_active(2) [OF Cons.prems, of e h] s1 by simp
  note keep = processPinch_active_photo [OF Cons.prems, of e h, folded s1]
  show ?case
  proof (cases r)
    case (Inl err)
    with pp keep show ?thesis by simp
  next
    case (Inr b)
    from Cons.IH [OF act] keep pp Inr show ?thesis by simp
  qed
qed

lemma pinchLoop_photo:
  "flashed (snd (pinchLoop e hs a s)) = flashed s
     \<or> action (last (flashed (snd (pinchLoop e hs a s)))) \<noteq> ''shutter'' \<Longrightarrow>
   photoReady (snd (pinchLoop e hs a s)) = photoReady s
     \<and> isCountingDown (snd (pinchLoop e hs a s)) = isCountingDown s
     \<and> lastGestureTime (snd (pinchLoop e hs a s)) = lastGestureTime s"
proof (induction hs arbitrary: a s)
  case Nil
  then show ?case by simp
next
  case (Cons h hs)
  obtain r s0 where pp: "processPinch e h s = (r, s0)" by (cases "processPinch e h s")
  have s0: "s0 = snd (processPinch e h s)" and r: "r = fst (processPinch e h s)" using pp by simp_all
  show ?case
  proof (cases "r = Inr True")
    case True
    then have act: "pinchActive s0" using processPinch_pinching [of e h s] r s0 by simp
    have loop: "snd (pinchLoop e (h # hs) a s) = snd (pinchLoop e hs True s0)"
      using pp True by simp
    note keep = pinchLoop_active [OF act, of e hs True] pinchLoop_active_photo [OF act, of e hs True]
    from Cons.prems have "flashed s0 = flashed s \<or> action (last (flashed s0)) \<noteq> ''shutter''"
      unfolding loop using keep by simp
    from processPinch_photo [of e h s] this show ?thesis
      unfolding loop using keep s0 by simp
  next
    case False
    then have same: "s0 = s" using processPinch_not_pinching [of e h s] r s0 by simp
    show ?thesis
    proof (cases r)
      case (Inl err)
      with pp same show ?thesis by simp
    next
      case (Inr c)
      with False have "\<not> c" by simp
      with pp Inr same have loop: "pinchLoop e (h # hs) a s = pinchLoop e hs a s" by simp
      from Cons.prems Cons.IH [of a s] show ?thesis unfolding loop by simp
    qed
  qed
qed

lemma afterPinch_photo:
  assumes "\<not> (fires e hs s \<and> action (last (flashed (snd (onResults e hs s)))) = ''shutter'')"
  shows "photoReady (afterPinch e hs s) = photoReady s
     \<and> isCountingDown (afterPinch e hs s) = isCountingDown s
     \<and> lastGestureTime (afterPinch e hs s) = lastGestureTime s"
proof -
  from assms have "flashed (snd (pinchLoop e hs False s)) = flashed s
     \<or> action (last (flashed (snd (pinchLoop e hs False s)))) \<noteq> ''shutter''"
    by (auto simp: fires_def onResults_button)
  from pinchLoop_photo [OF this]
  have loop: "photoReady (snd (pinchLoop e hs False s)) = photoReady s
     \<and> isCountingDown (snd (pinchLoop e hs False s)) = isCountingDown s
     \<and> lastGestureTime (snd (pinchLoop e hs False s)) = lastGestureTime s" .
  have rel: "\<And>t. photoReady (release e t) = photoReady t \<and> isCountingDown (release e t) = isCountingDown t
     \<and> lastGestureTime (release e t) = lastGestureTime t"
    by (subst (1 2 3) release_only) simp
  show ?thesis
    using loop by (auto simp: afterPinch_def rel split: prod.splits sum.splits)
qed


lemma swipeHand_photo:
  "mode (snd (swipeHand e h s)) = mode s \<Longrightarrow>
     photoReady (snd (swipeHand e h s)) = photoReady s
     \<and> isCountingDown (snd (swipeHand e h s)) = isCountingDown s
     \<and> lastGestureTime (snd (swipeHand e h s)) = lastGestureTime s"
  by (cases "mode s") (auto simp: swipeHand_def Let_def split: option.splits if_splits)

text \<open>Right after a switch the cooldown keeps every later hand of the frame from switching back.\<close>

lemma swipeHand_just_switched:
  "lastSwipeTime s = now e \<Longrightarrow>
     mode (snd (swipeHand e h s)) = mode s \<and> lastSwipeTime (snd (swipeHand e h s)) = now e"
  by (simp add: swipeHand_def Let_def SWIPE_COOLDOWN_MS_def split: option.splits)

lemma detectSwipes_just_switched:
  "lastSwipeTime s = now e \<Longrightarrow> mode (snd (detectSwipes e hs s)) = mode s"
  by (induction hs arbitrary: s)
     (simp_all add: detectSwipes_snd swipeHand_just_switched del: detectSwipes.simps(2) split: sum.splits)

lemma detectSwipes_photo:
  "mode (snd (detectSwipes e hs s)) = mode s \<Longrightarrow>
     photoReady (snd (detectSwipes e hs s)) = photoReady s
     \<and> isCountingDown (snd (detectSwipes e hs s)) = isCountingDown s
     \<and> lastGestureTime (snd (detectSwipes e hs s)) = lastGestureTime s"
proof (induction hs arbitrary: s)
  case Nil
  then show ?case by simp
next
  case (Cons h hs)
  let ?s1 = "snd (swipeHand e h s)"
  show ?case
  proof (cases "fst (swipeHand e h s)")
    case (Inl err)
    then have "snd (detectSwipes e (h # hs) s) = ?s1"
      by (simp add: detectSwipes_snd del: detectSwipes.simps(2))
    moreover from Inl have "?s1 = s" by (rule swipeHand_fault)
    ultimately show ?thesis by simp
  next
    case (Inr u)
    then have step: "snd (detectSwipes e (h # hs) s) = snd (detectSwipes e hs ?s1)"
      by (simp add: detectSwipes_snd del: detectSwipes.simps(2))
    have same: "mode ?s1 = mode s"
    proof (rule ccontr)
      assume ch: "mode ?s1 \<noteq> mode s"
      then have "lastSwipeTime ?s1 = now e" by (rule swipeHand_stamp)
      then have "mode (snd (detectSwipes e hs ?s1)) = mode ?s1" by (rule detectSwipes_just_switched)
      with ch Cons.prems step show False by simp
    qed
    with Cons.prems step have "mode (snd (detectSwipes e hs ?s1)) = mode ?s1" by simp
    from Cons.IH [OF this] swipeHand_photo [OF same] show ?thesis unfolding step by simp
  qed
qed

text \<open>Hands of 21 landmarks raise no exception in the pinch loop or in the swipe detection.\<close>

lemma processPinch_complete: "length h = 21 \<Longrightarrow> \<exists>b. fst (processPinch e h s) = Inr b"
  by (auto simp: processPinch_def distance_def lm_complete Let_def split_beta)

lemma pinchLoop_complete:
  "\<forall>g\<in>set hs. length g = 21 \<Longrightarrow> \<exists>b. fst (pinchLoop e hs a s) = Inr b"
proof (induction hs arbitrary: a s)
  case Nil
  then show ?case by simp
next
  case (Cons h hs)
  then obtain b where "fst (processPinch e h s) = Inr b" using processPinch_complete [of h e s] by auto
  then obtain s1 where "processPinch e h s = (Inr b, s1)" by (cases "processPinch e h s") simp
  with Cons show ?case by simp
qed

lemma swipeHand_complete: "length h = 21 \<Longrightarrow> fst (swipeHand e h s) = Inr ()"
  by (simp add: swipeHand_def lm_complete Let_def split: option.splits)

lemma detectSwipes_complete:
  "\<forall>g\<in>set hs. length g = 21 \<Longrightarrow> fst (detectSwipes e hs s) = Inr ()"
proof (induction hs arbitrary: s)
  case Nil
  then show ?case by simp
next
  case (Cons h hs)
  then have "fst (swipeHand e h s) = Inr ()" by (simp add: swipeHand_complete)
  then obtain s1 where "swipeHand e h s = (Inr (), s1)" by (cases "swipeHand e h s") simp
  with Cons show ?case by simp
qed

lemma onResults_complete:
  assumes "hs \<noteq> []" and "\<forall>g\<in>set hs. length g = 21"
  shows "onResults e hs s =
     (let s3 = snd (detectSwipes e hs (afterPinch e hs s))
      in if mode s3 = TryOn \<and> photoReady s3 \<and> \<not> isCountingDown s3
         then detectThumbGestures e hs s3 else (Inr (), s3))"
proof -
  obtain b where "fst (pinchLoop e hs False s) = Inr b" using pinchLoop_complete [OF assms(2)] by blast
  then obtain s1 where pl: "pinchLoop e hs False s = (Inr b, s1)"
    by (cases "pinchLoop e hs False s") simp
  let ?s2 = "if \<not> b \<and> pinchActive s1 then release e s1 else s1"
  have ap: "afterPinch e hs s = ?s2" using pl by (simp add: afterPinch_def)
  obtain s3 where ds: "detectSwipes e hs ?s2 = (Inr (), s3)"
    using detectSwipes_complete [OF assms(2), of e ?s2] by (cases "detectSwipes e hs ?s2") simp
  show ?thesis
    using assms(1) pl ds unfolding ap by (simp add: onResults_def Let_def)
qed



lemma thumbDownHand_gesture:
  "fingersFolded thumbDownHand = Inr True" "thumbDown thumbDownHand = Inr True"
  by (simp_all add: fingersFolded_complete [OF thumbDownHand_nth(1)] thumbDown_complete [OF thumbDownHand_nth(1)]
      thumbDownHand_nth pt_def)

lemma thumbDownHand_open: "fst (processPinch e thumbDownHand s) = Inr False"
proof -
  have l: "lm thumbDownHand 4 = Some (pt (1/2) (7/10))" "lm thumbDownHand 8 = Some (pt (1/2) (6/10))"
    "lm thumbDownHand 0 = Some (pt (1/2) (1/2))" "lm thumbDownHand 9 = Some (pt (1/2) (1/2))"
    by (simp_all add: lm_def thumbDownHand_def)
  show ?thesis
    using processPinch_result [OF l, of e s] by (simp add: pt_def pinchThreshold_def)
qed



lemma openHand_no_gesture: "length openHand = 21" "fingersFolded openHand = Inr False"
proof -
  show len: "length openHand = 21" by (simp add: openHand_def pinchHand_def)
  show "fingersFolded openHand = Inr False"
    by (simp add: fingersFolded_complete [OF len]) (simp add: openHand_def pinchHand_def pt_def)
qed


end
